theory Spec2Isabelle
  imports Complex_Main
begin

section \<open>Data model\<close>

text \<open>
  The sliding-window distances of \<^verbatim>\<open>cuseries/ED\<close> are modelled in exact arithmetic: an
  array element is a \<open>real\<close>, so every statement below is about the algorithm, not about
  the rounding of single or double precision.  An array carries its element type and its
  shape next to its (flattened) contents, because the public operations check both.
\<close>

datatype error = AssertionError | ValueError | ZeroDivisionError

text \<open>A raised exception ends the computation; a returned value is passed on.\<close>

definition and_then :: "error + 'a \<Rightarrow> ('a \<Rightarrow> error + 'b) \<Rightarrow> error + 'b" where
  "and_then r f = (case r of Inl e \<Rightarrow> Inl e | Inr v \<Rightarrow> f v)"

datatype dtype = Float32 | Float64

record ndarray =
  dtype :: dtype
  shape :: "nat list"
  data :: "real list"

definition wf_ndarray :: "ndarray \<Rightarrow> bool" where
  "wf_ndarray a \<longleftrightarrow> length (data a) = prod_list (shape a)"

definition array1 :: "dtype \<Rightarrow> real list \<Rightarrow> ndarray" where
  "array1 t xs = \<lparr>dtype = t, shape = [length xs], data = xs\<rparr>"

section \<open>Array primitives of the numerical library\<close>

text \<open>
  \<^verbatim>\<open>a[:k]\<close> for a Python integer \<open>k\<close>: a negative \<open>k\<close> counts from the end, so
  \<^verbatim>\<open>a[:-m]\<close> drops the last \<open>m\<close> entries, and \<^verbatim>\<open>a[:0]\<close> (which is also what
  \<^verbatim>\<open>a[:-0]\<close> means) is empty.  \<^verbatim>\<open>a[+m:]\<close> is \<open>drop m a\<close>.
\<close>

definition slice_to :: "'a list \<Rightarrow> int \<Rightarrow> 'a list" where
  "slice_to xs k = (if k < 0 then take (nat (int (length xs) + k)) xs else take (nat k) xs)"

text \<open>
  An elementwise binary operation on two rank-1 arrays, with the broadcasting rule:
  equal lengths combine entry by entry, a length-1 operand is stretched, anything else
  raises \<^verbatim>\<open>ValueError\<close> (operands could not be broadcast together).
\<close>

definition broadcast2 :: "(real \<Rightarrow> real \<Rightarrow> real) \<Rightarrow> real list \<Rightarrow> real list \<Rightarrow> error + real list" where
  "broadcast2 f xs ys =
     (if length xs = length ys then Inr (map2 f xs ys)
      else if length xs = 1 then Inr (map (f (hd xs)) ys)
      else if length ys = 1 then Inr (map (\<lambda>x. f x (hd ys)) xs)
      else Inl ValueError)"

text \<open>\<^verbatim>\<open>cp.cumsum(x)\<close>: the inclusive running sum, carried in an accumulator.\<close>

fun cp_cumsum :: "real \<Rightarrow> real list \<Rightarrow> real list" where
  "cp_cumsum acc [] = []"
| "cp_cumsum acc (x # xs) = (acc + x) # cp_cumsum (acc + x) xs"

text \<open>\<^verbatim>\<open>cp.diff(y)\<close>: \<open>y[i+1] - y[i]\<close>, one entry fewer than \<open>y\<close>.\<close>

definition cp_diff :: "real list \<Rightarrow> real list" where
  "cp_diff y = map (\<lambda>i. y ! (i + 1) - y ! i) [0..<length y - 1]"

text \<open>
  \<^verbatim>\<open>cp.max(a)\<close>: the maximum of a reduction with no identity; on a zero-size array the
  library raises \<^verbatim>\<open>ValueError\<close>.
\<close>

definition cp_max :: "real list \<Rightarrow> error + real" where
  "cp_max a = (case a of [] \<Rightarrow> Inl ValueError | v # vs \<Rightarrow> Inr (fold max vs v))"

definition cp_sum :: "real list \<Rightarrow> real" where
  "cp_sum a = fold (\<lambda>v acc. acc + v) a 0"

definition cp_mean :: "real list \<Rightarrow> real" where
  "cp_mean a = cp_sum a / real (length a)"

text \<open>
  \<^verbatim>\<open>cp.std(a, ddof=0)\<close>: the square root of the mean of the squared deviations from the
  mean; the divisor is the length minus \<open>ddof\<close>, here the length.
\<close>

definition cp_var :: "real list \<Rightarrow> real" where
  "cp_var a = cp_mean (map (\<lambda>v. (abs (v - cp_mean a))\<^sup>2) a)"

definition cp_std :: "real list \<Rightarrow> real" where
  "cp_std a = sqrt (cp_var a)"

section \<open>Helpers (\<^verbatim>\<open>stream_dists_helpers.py\<close>)\<close>

text \<open>
  \<^verbatim>\<open>cumsum(x, Kahan)\<close>: the exclusive prefix sum with a leading zero, followed by
  \<open>Kahan\<close> optional rounds that add the prefix sum of the residual \<open>x - diff(y)\<close>.
  The residual and \<open>diff(y)\<close> both have the length of \<open>x\<close>, and \<open>y\<close> and the recursive
  result both have that length plus one, so these two operations are entrywise.
\<close>

function cumsum :: "real list \<Rightarrow> int \<Rightarrow> error + real list" where
  "cumsum x Kahan =
     (if \<not> 0 \<le> Kahan then Inl AssertionError
      else
        let y = 0 # cp_cumsum 0 x in
        if Kahan \<noteq> 0 then
          (let r = map2 (-) x (cp_diff y) in
           case cp_max (map abs r) of
             Inl e \<Rightarrow> Inl e
           | Inr mx \<Rightarrow>
               if mx \<noteq> 0 then
                 (case cumsum r (Kahan - 1) of
                    Inl e \<Rightarrow> Inl e
                  | Inr c \<Rightarrow> Inr (map2 (+) y c))
               else Inr y)
        else Inr y)"
  by pat_completeness auto
termination
  by (relation "measure (\<lambda>(x, Kahan). nat Kahan)") auto

declare cumsum.simps [simp del]



definition mnorm :: "real list \<Rightarrow> real list" where
  "mnorm x = map (\<lambda>v. v - cp_mean x) x"

definition znorm :: "real list \<Rightarrow> real \<Rightarrow> real list" where
  "znorm x epsilon = map (\<lambda>v. (v - cp_mean x) / max (cp_std x) epsilon) x"

section \<open>Transform-domain engine (\<^verbatim>\<open>stream_dists_fft.py\<close>)\<close>

text \<open>
  \<^verbatim>\<open>buf = cp.zeros(n); buf[:len(a)] = a\<close>.  The target slice has \<open>min (len a) n\<close>
  entries; the assignment needs the value to have that many entries or to be a single
  entry that is stretched, and raises \<^verbatim>\<open>ValueError\<close> otherwise.
\<close>

definition zero_padded :: "real list \<Rightarrow> nat \<Rightarrow> error + real list" where
  "zero_padded a n =
     (if length a \<le> n then Inr (a @ replicate (n - length a) 0)
      else if length a = 1 then Inr (replicate n 0)
      else Inl ValueError)"

text \<open>
  \<^verbatim>\<open>cp.fft.irfft(cp.fft.rfft(E).conj() * cp.fft.rfft(iS), n=n)\<close> for two real arrays of
  length \<open>n\<close>.  By the correlation theorem of the discrete Fourier transform the value of
  this library expression, in exact arithmetic, is the circular cross-correlation of
  \<open>E\<close> and \<open>iS\<close>; the library call is modelled by that value.
\<close>

definition cross_correlation :: "real list \<Rightarrow> real list \<Rightarrow> nat \<Rightarrow> real list" where
  "cross_correlation E iS n =
     map (\<lambda>k. \<Sum>i\<leftarrow>[0..<n]. E ! i * iS ! ((i + k) mod n)) [0..<n]"

definition padded_length :: "nat \<Rightarrow> nat \<Rightarrow> error + nat" where
  "padded_length l alignment =
     (if alignment = 0 then Inl ZeroDivisionError
      else Inr ((l + alignment - 1) div alignment * alignment))"

definition fft_sdist :: "ndarray \<Rightarrow> ndarray \<Rightarrow> nat \<Rightarrow> int \<Rightarrow> error + real list" where
  "fft_sdist Q S alignment Kahan =
     (if dtype Q \<noteq> dtype S then Inl AssertionError
      else
        let m = length (data Q) in
        and_then (padded_length (length (data S)) alignment) (\<lambda>n.
        and_then (zero_padded (data S) n) (\<lambda>iS.
        and_then (cumsum (map (\<lambda>v. v\<^sup>2) iS) Kahan) (\<lambda>Y.
        and_then (broadcast2 (-) (drop m Y) (slice_to Y (- int m))) (\<lambda>Y.
        and_then (zero_padded (data Q) n) (\<lambda>E.
        let R = cross_correlation E iS n in
        and_then (broadcast2 (+)
          (map (\<lambda>r. cp_sum (map (\<lambda>v. v\<^sup>2) (data Q)) - 2 * r) (slice_to R (- int m + 1))) Y)
          (\<lambda>D.
        Inr (slice_to D (int (length (data S)) - int m + 1)))))))))"

definition fft_mdist :: "ndarray \<Rightarrow> ndarray \<Rightarrow> nat \<Rightarrow> int \<Rightarrow> error + real list" where
  "fft_mdist Q0 S alignment Kahan =
     (let m = length (data Q0); Q = mnorm (data Q0) in
      and_then (padded_length (length (data S)) alignment) (\<lambda>n.
      and_then (zero_padded (data S) n) (\<lambda>iS.
      and_then (cumsum iS Kahan) (\<lambda>X.
      and_then (cumsum (map (\<lambda>v. v\<^sup>2) iS) Kahan) (\<lambda>Y.
      and_then (broadcast2 (-) (drop m X) (slice_to X (- int m))) (\<lambda>X.
      and_then (broadcast2 (-) (drop m Y) (slice_to Y (- int m))) (\<lambda>Y.
      let Z = map2 (\<lambda>y x. y - x * x / real m) Y X in
      and_then (zero_padded Q n) (\<lambda>E.
      let R = cross_correlation E iS n in
      and_then (broadcast2 (+)
        (map (\<lambda>r. cp_sum (map (\<lambda>v. v\<^sup>2) Q) - 2 * r) (slice_to R (- int m + 1))) Z)
        (\<lambda>D.
      Inr (slice_to D (int (length (data S)) - int m + 1)))))))))))"

text \<open>
  In \<^verbatim>\<open>fft_zdist\<close> the arrays \<open>X\<close> and \<open>Y\<close> have the same length, so \<open>Z\<close> is entrywise;
  \<^verbatim>\<open>cp.where(Z > 0, 2*(m-R[:-m+1]/Z), m*cp.ones_like(Z))\<close> first evaluates both
  alternatives (the quotient broadcasts \<open>R[:-m+1]\<close> against \<open>Z\<close>), then selects.
\<close>

definition fft_zdist :: "ndarray \<Rightarrow> ndarray \<Rightarrow> real \<Rightarrow> nat \<Rightarrow> int \<Rightarrow> error + real list" where
  "fft_zdist Q0 S epsilon alignment Kahan =
     (if \<not> epsilon > 0 then Inl AssertionError
      else
        let m = length (data Q0); Q = znorm (data Q0) epsilon in
        and_then (padded_length (length (data S)) alignment) (\<lambda>n.
        and_then (zero_padded (data S) n) (\<lambda>iS.
        and_then (cumsum iS Kahan) (\<lambda>X.
        and_then (cumsum (map (\<lambda>v. v\<^sup>2) iS) Kahan) (\<lambda>Y.
        and_then (broadcast2 (-) (drop m X) (slice_to X (- int m))) (\<lambda>X.
        and_then (broadcast2 (-) (drop m Y) (slice_to Y (- int m))) (\<lambda>Y.
        let Z = map2 (\<lambda>y x. sqrt (max (y / real m - (x / real m)\<^sup>2) 0)) Y X in
        and_then (zero_padded Q n) (\<lambda>E.
        let R = cross_correlation E iS n in
        and_then (broadcast2 (\<lambda>r z. 2 * (real m - r / z)) (slice_to R (- int m + 1)) Z) (\<lambda>A.
        let F = map2 (\<lambda>z a. if z > 0 then a else real m) Z A in
        Inr (slice_to F (int (length (data S)) - int m + 1)))))))))))"

section \<open>Direct reduction kernels (\<^verbatim>\<open>stream_dists_kernels.py\<close>)\<close>

text \<open>
  \<^verbatim>\<open>range(start, stop, step)\<close> for a positive step: \<open>start, start + step, ...\<close> below
  \<open>stop\<close>.
\<close>

definition py_range :: "nat \<Rightarrow> nat \<Rightarrow> nat \<Rightarrow> nat list" where
  "py_range start stop step =
     map (\<lambda>j. start + j * step) [0..<(stop + step - 1 - start) div step]"

text \<open>
  A warp is 32 lanes that run in lock step.  A per-thread variable of the kernel is a
  function from the lane index to the value the lane holds.  With the full mask, a
  shuffle-down by \<open>delta\<close> gives lane \<open>l\<close> the value of lane \<open>l + delta\<close> (its own value
  when that lane is outside the warp), and a shuffle-xor gives it the value of lane
  \<open>l XOR delta\<close>.
\<close>

unbundle bit_operations_syntax

definition shfl_down_sync :: "(nat \<Rightarrow> real) \<Rightarrow> nat \<Rightarrow> nat \<Rightarrow> real" where
  "shfl_down_sync var delta laneIdx =
     (if laneIdx + delta < 32 then var (laneIdx + delta) else var laneIdx)"

definition shfl_xor_sync :: "(nat \<Rightarrow> real) \<Rightarrow> nat \<Rightarrow> nat \<Rightarrow> real" where
  "shfl_xor_sync var delta laneIdx = var (laneIdx XOR delta)"

text \<open>The two reduction loops over \<^verbatim>\<open>[16, 8, 4, 2, 1]\<close>, for all lanes at once.\<close>

definition reduce_down :: "(nat \<Rightarrow> real) \<Rightarrow> (nat \<Rightarrow> real)" where
  "reduce_down accum =
     fold (\<lambda>delta accum. (\<lambda>laneIdx. accum laneIdx + shfl_down_sync accum delta laneIdx))
       [16, 8, 4, 2, 1] accum"

definition reduce_xor :: "(nat \<Rightarrow> real) \<Rightarrow> (nat \<Rightarrow> real)" where
  "reduce_xor accum =
     fold (\<lambda>delta accum. (\<lambda>laneIdx. accum laneIdx + shfl_xor_sync accum delta laneIdx))
       [16, 8, 4, 2, 1] accum"

text \<open>
  The body of the position loop of each kernel: the value of \<open>accum\<close> in every lane when
  the loop body reaches \<^verbatim>\<open>if laneIdx == 0: out[position] = accum\<close>.
\<close>

definition sdist_position :: "real list \<Rightarrow> real list \<Rightarrow> nat \<Rightarrow> (nat \<Rightarrow> real)" where
  "sdist_position Q S position =
     reduce_down (\<lambda>laneIdx.
       fold (\<lambda>index accum. let value = Q ! index - S ! (position + index)
                            in accum + value * value)
         (py_range laneIdx (length Q) 32) 0)"

definition mdist_position :: "real list \<Rightarrow> real list \<Rightarrow> nat \<Rightarrow> (nat \<Rightarrow> real)" where
  "mdist_position Q S position =
     (let accum = reduce_xor (\<lambda>laneIdx.
            fold (\<lambda>index accum. accum + S ! (position + index))
              (py_range laneIdx (length Q) 32) 0);
          mean = (\<lambda>laneIdx. accum laneIdx / real (length Q))
      in reduce_down (\<lambda>laneIdx.
           fold (\<lambda>index accum. let value = Q ! index - S ! (position + index) + mean laneIdx
                                in accum + value * value)
             (py_range laneIdx (length Q) 32) 0))"

definition zdist_position :: "real list \<Rightarrow> real list \<Rightarrow> real \<Rightarrow> nat \<Rightarrow> (nat \<Rightarrow> real)" where
  "zdist_position Q S epsilon position =
     (let accums = (\<lambda>laneIdx.
            fold (\<lambda>index (accum1, accum2). let value = S ! (position + index)
                                            in (accum1 + value, accum2 + value * value))
              (py_range laneIdx (length Q) 32) (0, 0));
          accum1 = reduce_xor (\<lambda>laneIdx. fst (accums laneIdx));
          accum2 = reduce_xor (\<lambda>laneIdx. snd (accums laneIdx));
          mean = (\<lambda>laneIdx. accum1 laneIdx / real (length Q));
          sigma = (\<lambda>laneIdx. accum2 laneIdx / real (length Q) - mean laneIdx * mean laneIdx);
          sigma = (\<lambda>laneIdx. if sigma laneIdx > 0 then sqrt (sigma laneIdx) else epsilon)
      in reduce_down (\<lambda>laneIdx.
           fold (\<lambda>index accum.
                   let value = Q ! index - (S ! (position + index) - mean laneIdx) / sigma laneIdx
                   in accum + value * value)
             (py_range laneIdx (length Q) 32) 0))"

text \<open>
  A launch \<^verbatim>\<open>kernel[gridDim, blockDim, stream]\<close>: every warp of every block walks its
  strided positions, and lane 0 stores the reduced value.  Each position is written by
  one warp only, so the warps are run one after the other here.
\<close>

definition launch :: "nat \<Rightarrow> nat \<Rightarrow> (nat \<Rightarrow> nat \<Rightarrow> real) \<Rightarrow> nat \<Rightarrow> real list \<Rightarrow> real list" where
  "launch gridDim blockDim body stop out =
     (let warpDim = blockDim div 32; stride = gridDim * warpDim in
      fold (\<lambda>(blockIdx, warpIdx) out.
              let lower = blockIdx * warpDim + warpIdx in
              fold (\<lambda>position out. out[position := body position 0])
                (py_range lower stop stride) out)
        (List.product [0..<gridDim] [0..<warpDim]) out)"

definition sdist_kernel :: "nat \<Rightarrow> nat \<Rightarrow> real list \<Rightarrow> real list \<Rightarrow> real list \<Rightarrow> real list" where
  "sdist_kernel gridDim blockDim Q S out =
     launch gridDim blockDim (sdist_position Q S) (length S + 1 - length Q) out"

definition mdist_kernel :: "nat \<Rightarrow> nat \<Rightarrow> real list \<Rightarrow> real list \<Rightarrow> real list \<Rightarrow> real list" where
  "mdist_kernel gridDim blockDim Q S out =
     launch gridDim blockDim (mdist_position Q S) (length S + 1 - length Q) out"

definition zdist_kernel ::
  "nat \<Rightarrow> nat \<Rightarrow> real list \<Rightarrow> real list \<Rightarrow> real list \<Rightarrow> real \<Rightarrow> real list" where
  "zdist_kernel gridDim blockDim Q S out epsilon =
     launch gridDim blockDim (zdist_position Q S epsilon) (length S + 1 - length Q) out"

section \<open>Dispatch layer (\<^verbatim>\<open>__init__.py\<close>)\<close>

text \<open>
  \<^verbatim>\<open>cp.empty(n)\<close> returns \<open>n\<close> entries of uninitialised memory; what that memory holds
  is a parameter \<open>mem\<close> of the public operations.
\<close>

definition cp_empty :: "nat \<Rightarrow> (nat \<Rightarrow> real) \<Rightarrow> real list" where
  "cp_empty n mem = map mem [0..<n]"

definition shapes_ok :: "ndarray \<Rightarrow> ndarray \<Rightarrow> bool" where
  "shapes_ok Q S \<longleftrightarrow>
     length (shape Q) = length (shape S) \<and> length (shape S) = 1 \<and> shape Q ! 0 \<le> shape S ! 0"

definition sdist :: "ndarray \<Rightarrow> ndarray \<Rightarrow> string \<Rightarrow> (nat \<Rightarrow> real) \<Rightarrow> error + real list" where
  "sdist Q S mode mem =
     (if \<not> dtype Q = dtype S then Inl AssertionError
      else if \<not> shapes_ok Q S then Inl AssertionError
      else if mode = ''fft'' then fft_sdist Q S 10000 0
      else
        let Z = cp_empty (length (data S) - length (data Q) + 1) mem
        in Inr (sdist_kernel (80 * 32) 64 (data Q) (data S) Z))"

definition mdist :: "ndarray \<Rightarrow> ndarray \<Rightarrow> string \<Rightarrow> (nat \<Rightarrow> real) \<Rightarrow> error + real list" where
  "mdist Q S mode mem =
     (if \<not> dtype Q = dtype S then Inl AssertionError
      else if \<not> shapes_ok Q S then Inl AssertionError
      else if mode = ''fft'' then fft_mdist Q S 10000 0
      else
        let Z = cp_empty (length (data S) - length (data Q) + 1) mem
        in Inr (mdist_kernel (80 * 32) 64 (mnorm (data Q)) (data S) Z))"

text \<open>
  The degenerate-query check of \<^verbatim>\<open>zdist\<close> compares the standard deviation that the
  library computes for the query, in floating point, with zero.  That computed value need
  not be the exact one: for a constant query whose entries are not exactly representable
  it can come out as a tiny positive number, and the check then passes.  The value the
  library computes is therefore a parameter \<open>std\<close> of the operation; \<open>cp_std\<close> is what it
  computes when no rounding occurs.
\<close>

definition zdist ::
  "ndarray \<Rightarrow> ndarray \<Rightarrow> string \<Rightarrow> real \<Rightarrow> (real list \<Rightarrow> real) \<Rightarrow> (nat \<Rightarrow> real)
     \<Rightarrow> error + real list" where
  "zdist Q S mode epsilon std mem =
     (if \<not> epsilon > 0 then Inl AssertionError
      else if \<not> dtype Q = dtype S then Inl AssertionError
      else if \<not> shapes_ok Q S then Inl AssertionError
      else if \<not> std (data Q) > 0 then Inl AssertionError
      else if mode = ''fft'' then fft_zdist Q S epsilon 10000 0
      else
        let Z = cp_empty (length (data S) - length (data Q) + 1) mem
        in Inr (zdist_kernel (80 * 32) 64 (znorm (data Q) epsilon) (data S) Z epsilon))"

section \<open>Closed forms of the window statistics\<close>

text \<open>
  The mean and the population variance of the window of length \<open>m\<close> at offset \<open>k\<close>, in
  the form in which both engines compute them: the sum and the sum of squares of the
  window divided by \<open>m\<close>.  The lemmas below show that the warps and the prefix sums
  compute these values.
\<close>

definition window_sum :: "real list \<Rightarrow> nat \<Rightarrow> nat \<Rightarrow> real" where
  "window_sum S m k = (\<Sum>j<m. S ! (k + j))"

definition window_sumsq :: "real list \<Rightarrow> nat \<Rightarrow> nat \<Rightarrow> real" where
  "window_sumsq S m k = (\<Sum>j<m. S ! (k + j) * S ! (k + j))"

definition window_mean :: "real list \<Rightarrow> nat \<Rightarrow> nat \<Rightarrow> real" where
  "window_mean S m k = window_sum S m k / real m"

definition window_var :: "real list \<Rightarrow> nat \<Rightarrow> nat \<Rightarrow> real" where
  "window_var S m k = window_sumsq S m k / real m - window_mean S m k * window_mean S m k"

text \<open>The divisor the Z-normalized kernel uses for a window: its standard deviation, or
  \<open>epsilon\<close> when the variance is not positive.\<close>

definition window_sigma :: "real list \<Rightarrow> nat \<Rightarrow> nat \<Rightarrow> real \<Rightarrow> real" where
  "window_sigma S m k epsilon =
     (if window_var S m k > 0 then sqrt (window_var S m k) else epsilon)"

text \<open>
  The entry for window \<open>k\<close> of the Z-normalized distance, as each engine produces it:
  the transform-domain engine from the cross-correlation and the window deviation, the
  direct kernel as a sum of squared differences.
\<close>

definition z_transform_entry :: "real list \<Rightarrow> real list \<Rightarrow> real \<Rightarrow> nat \<Rightarrow> real" where
  "z_transform_entry q S epsilon k =
     (if window_var S (length q) k > 0
      then 2 * (real (length q)
             - (\<Sum>i<length q. znorm q epsilon ! i * S ! (k + i)) / sqrt (window_var S (length q) k))
      else real (length q))"

definition z_direct_entry :: "real list \<Rightarrow> real list \<Rightarrow> real \<Rightarrow> nat \<Rightarrow> real" where
  "z_direct_entry q S epsilon k =
     (\<Sum>i<length q. (znorm q epsilon ! i
         - (S ! (k + i) - window_mean S (length q) k) / window_sigma S (length q) k epsilon)\<^sup>2)"

section \<open>The normalization helper as the specification words it\<close>

text \<open>
  The specification describes \<open>z_normalize(x, epsilon)\<close> as
  \<open>(x - mean(x)) / max(population_stdev(x), epsilon)\<close>, where the population standard
  deviation divides by the length.  These definitions follow those words; the code's
  \<open>znorm\<close> is compared with them below.
\<close>

definition arithmetic_mean :: "real list \<Rightarrow> real" where
  "arithmetic_mean x = sum_list x / real (length x)"

definition population_variance :: "real list \<Rightarrow> real" where
  "population_variance x = (\<Sum>v\<leftarrow>x. (v - arithmetic_mean x)\<^sup>2) / real (length x)"

definition population_stdev :: "real list \<Rightarrow> real" where
  "population_stdev x = sqrt (population_variance x)"

definition z_normalize_spec :: "real list \<Rightarrow> real \<Rightarrow> real list" where
  "z_normalize_spec x epsilon =
     map (\<lambda>v. (v - arithmetic_mean x) / max (population_stdev x) epsilon) x"

section \<open>The stabilized prefix sum\<close>

lemma cp_cumsum_length [simp]: "length (cp_cumsum acc xs) = length xs"
  by (induction xs arbitrary: acc) auto

lemma cp_cumsum_nth:
  "i < length xs \<Longrightarrow> cp_cumsum acc xs ! i = acc + sum_list (take (Suc i) xs)"
proof (induction xs arbitrary: acc i)
  case Nil
  then show ?case by simp
next
  case (Cons x xs)
  then show ?case by (cases i) (simp_all add: add.assoc)
qed

lemma prefix_nth:
  "i \<le> length xs \<Longrightarrow> (0 # cp_cumsum 0 xs) ! i = sum_list (take i xs)"
  by (cases i) (simp_all add: cp_cumsum_nth)

lemma cp_diff_prefix: "cp_diff (0 # cp_cumsum 0 xs) = xs"
proof (rule nth_equalityI)
  show "length (cp_diff (0 # cp_cumsum 0 xs)) = length xs"
    by (simp add: cp_diff_def)
next
  fix i assume "i < length (cp_diff (0 # cp_cumsum 0 xs))"
  then have i: "i < length xs" by (simp add: cp_diff_def)
  have "take (Suc i) xs = take i xs @ [xs ! i]"
    using i by (simp add: take_Suc_conv_app_nth)
  then have "sum_list (take (Suc i) xs) - sum_list (take i xs) = xs ! i"
    by simp
  moreover have "(0 # cp_cumsum 0 xs) ! Suc i = sum_list (take (Suc i) xs)"
    using i by (intro prefix_nth) simp
  moreover have "(0 # cp_cumsum 0 xs) ! i = sum_list (take i xs)"
    using i by (intro prefix_nth) simp
  ultimately show "cp_diff (0 # cp_cumsum 0 xs) ! i = xs ! i"
    using i by (simp add: cp_diff_def del: nth_Cons_Suc)
qed

lemma residual_zero: "map2 (-) xs (cp_diff (0 # cp_cumsum 0 xs)) = replicate (length xs) 0"
  unfolding cp_diff_prefix by (rule nth_equalityI) simp_all

lemma fold_max_zero: "\<forall>v \<in> set xs. v = (0::real) \<Longrightarrow> fold max xs 0 = 0"
  by (induction xs) simp_all

lemma cp_max_zero: "0 < n \<Longrightarrow> cp_max (map abs (replicate n (0::real))) = Inr 0"
  by (cases n) (simp_all add: cp_max_def fold_max_zero del: fold_replicate)

lemma cumsum_exact:
  assumes "0 \<le> Kahan" and "x \<noteq> [] \<or> Kahan = 0"
  shows "cumsum x Kahan = Inr (0 # cp_cumsum 0 x)"
proof (cases "Kahan = 0")
  case True
  then show ?thesis by (simp add: cumsum.simps)
next
  case False
  with assms have "0 < length x" by simp
  then have "cp_max (map abs (map2 (-) x (cp_diff (0 # cp_cumsum 0 x)))) = Inr 0"
    by (simp only: residual_zero cp_max_zero)
  with False assms(1) show ?thesis
    by (subst cumsum.simps) (simp add: Let_def)
qed


section \<open>The kernel launch covers every window position\<close>

lemma fold_add_sum_list: "fold (\<lambda>i (a::real). a + g i) xs a0 = a0 + sum_list (map g xs)"
  by (induction xs arbitrary: a0) (simp_all add: add.assoc)

lemma fold_pair_sum_list:
  "fold (\<lambda>i (a, b). (a + f i, b + h i)) xs (a0::real, b0::real)
     = (a0 + sum_list (map f xs), b0 + sum_list (map h xs))"
  by (induction xs arbitrary: a0 b0) (simp_all add: add.assoc)

lemma py_range_nth_mem:
  assumes "0 < step"
  shows "set (py_range lo stop step) = {i. lo \<le> i \<and> i < stop \<and> step dvd (i - lo)}"
proof -
  have cnt: "j < (stop + step - 1 - lo) div step \<longleftrightarrow> lo + j * step < stop" for j
  proof -
    have "j < (stop + step - 1 - lo) div step \<longleftrightarrow> Suc j \<le> (stop + step - 1 - lo) div step"
      by auto
    also have "\<dots> \<longleftrightarrow> Suc j * step \<le> stop + step - 1 - lo"
      using assms by (simp add: less_eq_div_iff_mult_less_eq)
    also have "\<dots> \<longleftrightarrow> lo + j * step < stop"
      using assms by (cases step) auto
    finally show ?thesis .
  qed
  show ?thesis
  proof (intro set_eqI iffI)
    fix i assume "i \<in> set (py_range lo stop step)"
    then obtain j where "j < (stop + step - 1 - lo) div step" "i = lo + j * step"
      by (auto simp: py_range_def)
    then show "i \<in> {i. lo \<le> i \<and> i < stop \<and> step dvd (i - lo)}"
      using cnt by simp
  next
    fix i assume "i \<in> {i. lo \<le> i \<and> i < stop \<and> step dvd (i - lo)}"
    then obtain j where j: "lo \<le> i" "i < stop" "i - lo = j * step"
      by (auto simp: dvd_def mult.commute)
    then have "i = lo + j * step" by simp
    moreover from this j have "j < (stop + step - 1 - lo) div step"
      using cnt by simp
    ultimately show "i \<in> set (py_range lo stop step)"
      by (auto simp: py_range_def)
  qed
qed

lemma py_range_distinct: "0 < step \<Longrightarrow> distinct (py_range lo stop step)"
  by (simp add: py_range_def distinct_map inj_on_def)

lemma fold_update_length [simp]:
  "length (fold (\<lambda>p out. out[p := f p]) ps out) = length out"
  by (induction ps arbitrary: out) simp_all

lemma fold_update_nth:
  "k < length out \<Longrightarrow>
     fold (\<lambda>p out. out[p := f p]) ps out ! k = (if k \<in> set ps then f k else out ! k)"
  by (induction ps arbitrary: out) (auto simp: nth_list_update)

lemma fold_fold_concat:
  "fold (\<lambda>w out. fold upd (h w) out) ws out = fold upd (concat (map h ws)) out"
  by (induction ws arbitrary: out) simp_all

lemma launch_eq:
  assumes "0 < gridDim" and "32 \<le> blockDim" and "length out = stop"
  shows "launch gridDim blockDim body stop out = map (\<lambda>k. body k 0) [0..<stop]"
proof -
  define warpDim where "warpDim = blockDim div 32"
  define stride where "stride = gridDim * warpDim"
  define h where "h = (\<lambda>(blockIdx, warpIdx). py_range (blockIdx * warpDim + warpIdx) stop stride)"
  define ws where "ws = List.product [0..<gridDim] [0..<warpDim]"
  have wpos: "0 < warpDim" using assms(2) by (simp add: warpDim_def div_greater_zero_iff)
  then have spos: "0 < stride" using assms(1) by (simp add: stride_def)
  have L: "launch gridDim blockDim body stop out
             = fold (\<lambda>p out. out[p := body p 0]) (concat (map h ws)) out"
    unfolding launch_def Let_def warpDim_def [symmetric] stride_def [symmetric] ws_def [symmetric]
      fold_fold_concat [symmetric] h_def
    by (rule arg_cong [where f = "\<lambda>f. fold f ws out"]) (auto simp: fun_eq_iff)
  have cover: "k \<in> set (concat (map h ws))" if "k < stop" for k
  proof -
    define l where "l = k mod stride"
    have "l < stride" using spos by (simp add: l_def)
    then have b: "l div warpDim < gridDim"
      by (simp add: stride_def less_mult_imp_div_less mult.commute)
    have w: "l mod warpDim < warpDim" using wpos by simp
    have "stride dvd (k - l)" by (simp add: l_def dvd_minus_mod)
    moreover have "l \<le> k" by (simp add: l_def)
    ultimately have "k \<in> set (py_range (l div warpDim * warpDim + l mod warpDim) stop stride)"
      using that spos by (simp add: py_range_nth_mem)
    then have "k \<in> set (h (l div warpDim, l mod warpDim))" by (simp add: h_def)
    moreover have "(l div warpDim, l mod warpDim) \<in> set ws" using b w by (simp add: ws_def)
    ultimately show ?thesis by auto
  qed
  show ?thesis
  proof (rule nth_equalityI)
    show "length (launch gridDim blockDim body stop out) = length (map (\<lambda>k. body k 0) [0..<stop])"
      by (simp add: L assms(3))
  next
    fix k assume "k < length (launch gridDim blockDim body stop out)"
    then have k: "k < stop" by (simp add: L assms(3))
    then show "launch gridDim blockDim body stop out ! k = map (\<lambda>k. body k 0) [0..<stop] ! k"
      using cover [OF k] by (simp add: L fold_update_nth assms(3))
  qed
qed

section \<open>Warp reductions\<close>

lemma lanes_unfold:
  "(\<Sum>l<32. (f::nat \<Rightarrow> real) l) = f 0 + f 1 + f 2 + f 3 + f 4 + f 5 + f 6 + f 7 + f 8 + f 9 + f 10
     + f 11 + f 12 + f 13 + f 14 + f 15 + f 16 + f 17 + f 18 + f 19 + f 20 + f 21 + f 22
     + f 23 + f 24 + f 25 + f 26 + f 27 + f 28 + f 29 + f 30 + f 31"
  by (simp add: eval_nat_numeral lessThan_Suc)

lemma reduce_down_lane0: "reduce_down accum 0 = (\<Sum>l<32. accum l)"
  by (simp add: lanes_unfold reduce_down_def shfl_down_sync_def eval_nat_numeral)

lemma all_lanes:
  "(\<forall>l<32::nat. P l) \<longleftrightarrow> P 0 \<and> P 1 \<and> P 2 \<and> P 3 \<and> P 4 \<and> P 5 \<and> P 6 \<and> P 7 \<and> P 8 \<and> P 9
     \<and> P 10 \<and> P 11 \<and> P 12 \<and> P 13 \<and> P 14 \<and> P 15 \<and> P 16 \<and> P 17 \<and> P 18 \<and> P 19 \<and> P 20
     \<and> P 21 \<and> P 22 \<and> P 23 \<and> P 24 \<and> P 25 \<and> P 26 \<and> P 27 \<and> P 28 \<and> P 29 \<and> P 30 \<and> P 31"
  by (simp add: eval_nat_numeral All_less_Suc conj_ac)


lemma reduce_xor_lanes: "\<forall>l<32. reduce_xor accum l = (\<Sum>l<32. accum l)"
  unfolding all_lanes lanes_unfold
  by (simp add: reduce_xor_def shfl_xor_sync_def del: One_nat_def)

section \<open>The lanes of a warp partition the query indices\<close>

lemma lane_range_set:
  assumes "l < 32"
  shows "set (py_range l m 32) = {i \<in> {..<m}. i mod 32 = l}"
proof -
  have "(l \<le> i \<and> i < m \<and> 32 dvd (i - l)) \<longleftrightarrow> (i < m \<and> i mod 32 = l)" for i
  proof (cases "l \<le> i")
    case True
    then have "32 dvd (i - l) \<longleftrightarrow> i mod 32 = l mod 32"
      by (simp add: mod_eq_dvd_iff_nat)
    with True assms show ?thesis by simp
  next
    case False
    then have "i mod 32 \<noteq> l" using mod_less_eq_dividend [of i 32] by linarith
    with False show ?thesis by simp
  qed
  then show ?thesis by (simp add: py_range_nth_mem)
qed

lemma lane_partition:
  "(\<Sum>l<32. sum_list (map g (py_range l m 32))) = (\<Sum>i<m. (g i::real))"
proof -
  have "(\<Sum>l<32. sum_list (map g (py_range l m 32))) = (\<Sum>l<32. sum g {i \<in> {..<m}. i mod 32 = l})"
  proof (rule sum.cong [OF refl])
    fix l :: nat assume "l \<in> {..<32}"
    then have l: "l < 32" by simp
    have "sum_list (map g (py_range l m 32)) = sum g (set (py_range l m 32))"
      by (rule sum_list_distinct_conv_sum_set) (simp add: py_range_distinct)
    then show "sum_list (map g (py_range l m 32)) = sum g {i \<in> {..<m}. i mod 32 = l}"
      by (simp add: lane_range_set [OF l])
  qed
  also have "\<dots> = sum g {..<m}"
    by (rule sum.group) auto
  finally show ?thesis .
qed

text \<open>
  A warp whose lanes each add up \<open>F l i\<close> over their strided indices and then reduce:
  when the summand does not depend on the lane, lane 0 ends with the whole sum.
\<close>

lemma warp_down_sum:
  assumes "\<And>l i. l < 32 \<Longrightarrow> F l i = G i"
  shows "reduce_down (\<lambda>l. fold (\<lambda>index accum. accum + F l index) (py_range l m 32) 0) 0
           = (\<Sum>i<m. G i)"
proof -
  have "(\<Sum>l<32. fold (\<lambda>index accum. accum + F l index) (py_range l m 32) 0)
          = (\<Sum>l<32. sum_list (map G (py_range l m 32)))"
  proof (rule sum.cong [OF refl])
    fix l :: nat assume "l \<in> {..<32}"
    then have "l < 32" by simp
    then have "F l = G"
      using assms by (simp add: fun_eq_iff)
    then show "fold (\<lambda>index accum. accum + F l index) (py_range l m 32) 0
                 = sum_list (map G (py_range l m 32))"
      by (simp only: fold_add_sum_list add_0)
  qed
  then show ?thesis
    by (simp only: reduce_down_lane0 lane_partition)
qed

lemma warp_xor_sum:
  assumes "l < 32"
  shows "reduce_xor (\<lambda>l. fold (\<lambda>index accum. accum + G index) (py_range l m 32) 0) l
           = (\<Sum>i<m. G i)"
proof -
  have "reduce_xor (\<lambda>l. fold (\<lambda>index accum. accum + G index) (py_range l m 32) 0) l
          = (\<Sum>l<32. fold (\<lambda>index accum. accum + G index) (py_range l m 32) 0)"
    using reduce_xor_lanes assms by blast
  also have "\<dots> = (\<Sum>l<32. sum_list (map G (py_range l m 32)))"
    by (simp add: fold_add_sum_list)
  finally show ?thesis by (simp only: lane_partition)
qed

lemma sdist_position_lane0:
  "sdist_position Q S k 0 = (\<Sum>i<length Q. (Q ! i - S ! (k + i))\<^sup>2)"
  unfolding sdist_position_def Let_def
  by (rule warp_down_sum) (simp add: power2_eq_square)

lemma mdist_position_lane0:
  "mdist_position Q S k 0
     = (\<Sum>i<length Q. (Q ! i - S ! (k + i) + window_mean S (length Q) k)\<^sup>2)"
proof -
  have mean: "reduce_xor (\<lambda>laneIdx. fold (\<lambda>index accum. accum + S ! (k + index))
                 (py_range laneIdx (length Q) 32) 0) l / real (length Q)
                = window_mean S (length Q) k" if "l < 32" for l
    by (simp only: warp_xor_sum [OF that] window_mean_def window_sum_def)
  show ?thesis
    unfolding mdist_position_def Let_def
    by (rule warp_down_sum) (simp only: mean power2_eq_square)
qed

section \<open>What the three kernels store\<close>

lemma two_accumulators:
  "fold (\<lambda>index (accum1, accum2). let value = f index in (accum1 + value, accum2 + value * value))
     xs (0::real, 0::real)
   = (fold (\<lambda>index accum. accum + f index) xs 0,
      fold (\<lambda>index accum. accum + f index * f index) xs 0)"
  using fold_pair_sum_list [of f "\<lambda>i. f i * f i" xs 0 0]
  by (simp add: Let_def fold_add_sum_list)

lemma zdist_position_lane0:
  "zdist_position Q S epsilon k 0
     = (\<Sum>i<length Q. (Q ! i - (S ! (k + i) - window_mean S (length Q) k)
                                  / window_sigma S (length Q) k epsilon)\<^sup>2)"
proof -
  let ?m = "length Q"
  have s1: "reduce_xor (\<lambda>laneIdx. fold (\<lambda>index accum. accum + S ! (k + index))
                 (py_range laneIdx ?m 32) 0) l = window_sum S ?m k" if "l < 32" for l
    by (simp only: warp_xor_sum [OF that] window_sum_def)
  have s2: "reduce_xor (\<lambda>laneIdx. fold (\<lambda>index accum. accum + S ! (k + index) * S ! (k + index))
                 (py_range laneIdx ?m 32) 0) l = window_sumsq S ?m k" if "l < 32" for l
    by (simp only: warp_xor_sum [OF that] window_sumsq_def)
  show ?thesis
    unfolding zdist_position_def Let_def two_accumulators [unfolded Let_def] fst_conv snd_conv
    by (rule warp_down_sum)
      (simp only: s1 s2 window_sigma_def window_var_def window_mean_def power2_eq_square)
qed

lemma sdist_kernel_eq:
  assumes "length out = length S + 1 - length Q"
  shows "sdist_kernel (80 * 32) 64 Q S out
           = map (\<lambda>k. \<Sum>i<length Q. (Q ! i - S ! (k + i))\<^sup>2) [0..<length S + 1 - length Q]"
  unfolding sdist_kernel_def
  by (subst launch_eq) (simp_all add: assms sdist_position_lane0)

lemma mdist_kernel_eq:
  assumes "length out = length S + 1 - length Q"
  shows "mdist_kernel (80 * 32) 64 Q S out
           = map (\<lambda>k. \<Sum>i<length Q. (Q ! i - S ! (k + i) + window_mean S (length Q) k)\<^sup>2)
               [0..<length S + 1 - length Q]"
  unfolding mdist_kernel_def
  by (subst launch_eq) (simp_all add: assms mdist_position_lane0)

lemma zdist_kernel_eq:
  assumes "length out = length S + 1 - length Q"
  shows "zdist_kernel (80 * 32) 64 Q S out epsilon
           = map (\<lambda>k. \<Sum>i<length Q. (Q ! i - (S ! (k + i) - window_mean S (length Q) k)
                                  / window_sigma S (length Q) k epsilon)\<^sup>2)
               [0..<length S + 1 - length Q]"
  unfolding zdist_kernel_def
  by (subst launch_eq) (simp_all add: assms zdist_position_lane0)

section \<open>Windowed sums from the prefix sum\<close>

lemma and_then_simps [simp]:
  "and_then (Inr v) f = f v" "and_then (Inl e) f = Inl e"
  by (simp_all add: and_then_def)

lemma broadcast2_same:
  "length xs = length ys \<Longrightarrow> broadcast2 f xs ys = Inr (map2 f xs ys)"
  by (simp add: broadcast2_def)

lemma padded_ge: "0 < a \<Longrightarrow> (l::nat) \<le> (l + a - 1) div a * a"
proof -
  assume a: "0 < a"
  define t where "t = l + a - 1"
  have "t mod a < a" using a by simp
  moreover have "t div a * a + t mod a = t" by simp
  ultimately have "t < t div a * a + a" by linarith
  then show ?thesis using a unfolding t_def by linarith
qed

lemma window_from_prefix:
  assumes "k + m \<le> length x"
  shows "drop m (0 # cp_cumsum 0 x) ! k - (0 # cp_cumsum 0 x) ! k = (\<Sum>j<m. x ! (k + j))"
proof -
  have "drop m (0 # cp_cumsum 0 x) ! k = (0 # cp_cumsum 0 x) ! (m + k)"
    using assms by (intro nth_drop) simp
  also have "\<dots> = sum_list (take (m + k) x)"
    using assms by (intro prefix_nth) simp
  finally have a: "drop m (0 # cp_cumsum 0 x) ! k = sum_list (take (m + k) x)" .
  have b: "(0 # cp_cumsum 0 x) ! k = sum_list (take k x)"
    using assms by (intro prefix_nth) simp
  have "take (m + k) x = take k x @ take m (drop k x)"
    by (simp add: take_add add.commute)
  then have "sum_list (take (m + k) x) - sum_list (take k x) = sum_list (take m (drop k x))"
    by simp
  also have "\<dots> = (\<Sum>j<m. take m (drop k x) ! j)"
  proof -
    have "length (take m (drop k x)) = m" using assms by simp
    then show ?thesis
      by (simp only: sum_list_sum_nth atLeast0LessThan)
  qed
  also have "\<dots> = (\<Sum>j<m. x ! (k + j))"
    using assms by (intro sum.cong) simp_all
  finally show ?thesis using a b by simp
qed

lemma prefix_windows:
  assumes "1 \<le> m" and "m \<le> length x + 1"
  shows "broadcast2 (-) (drop m (0 # cp_cumsum 0 x)) (slice_to (0 # cp_cumsum 0 x) (- int m))
           = Inr (map (\<lambda>k. \<Sum>j<m. x ! (k + j)) [0..<length x + 1 - m])"
proof -
  let ?Y = "0 # cp_cumsum 0 x"
  have "nat (int (length ?Y) + - int m) = length x + 1 - m"
    using assms by (simp only: length_Cons cp_cumsum_length)
  moreover have "- int m < 0" using assms by simp
  ultimately have sl: "slice_to ?Y (- int m) = take (length x + 1 - m) ?Y"
    by (simp only: slice_to_def if_True)
  have len: "length (drop m ?Y) = length (take (length x + 1 - m) ?Y)"
    using assms by simp
  have "map2 (-) (drop m ?Y) (take (length x + 1 - m) ?Y)
          = map (\<lambda>k. \<Sum>j<m. x ! (k + j)) [0..<length x + 1 - m]"
  proof (rule nth_equalityI)
    show "length (map2 (-) (drop m ?Y) (take (length x + 1 - m) ?Y))
            = length (map (\<lambda>k. \<Sum>j<m. x ! (k + j)) [0..<length x + 1 - m])"
      using assms by simp
  next
    fix k assume "k < length (map2 (-) (drop m ?Y) (take (length x + 1 - m) ?Y))"
    then have k: "k < length x + 1 - m" using assms by simp
    then have "k + m \<le> length x" by simp
    from window_from_prefix [OF this] k
    show "map2 (-) (drop m ?Y) (take (length x + 1 - m) ?Y) ! k
            = map (\<lambda>k. \<Sum>j<m. x ! (k + j)) [0..<length x + 1 - m] ! k"
      using assms by simp
  qed
  then show ?thesis
    unfolding sl by (simp only: broadcast2_same [OF len])
qed

section \<open>Slices and the cross-correlation of the padded buffers\<close>

lemma cp_sum_eq: "cp_sum a = (\<Sum>i<length a. a ! i)"
proof -
  have "cp_sum a = sum_list (map (\<lambda>v. v) a)"
    unfolding cp_sum_def by (simp only: fold_add_sum_list add_0)
  then show ?thesis
    by (simp add: sum_list_sum_nth atLeast0LessThan)
qed

lemma cp_sum_map: "cp_sum (map f a) = (\<Sum>i<length a. f (a ! i))"
  by (simp add: cp_sum_eq)

lemma slice_to_tail:
  assumes "2 \<le> m" and "m \<le> length R"
  shows "slice_to R (- int m + 1) = take (length R + 1 - m) R"
proof -
  have "- int m + 1 < 0" using assms by simp
  moreover have "nat (int (length R) + (- int m + 1)) = length R + 1 - m"
    using assms by linarith
  ultimately show ?thesis by (simp only: slice_to_def if_True)
qed

lemma slice_to_result:
  assumes "m \<le> n0"
  shows "slice_to D (int n0 - int m + 1) = take (n0 + 1 - m) D"
proof -
  have "\<not> int n0 - int m + 1 < 0" using assms by simp
  moreover have "nat (int n0 - int m + 1) = n0 + 1 - m"
    using assms by linarith
  ultimately show ?thesis by (simp only: slice_to_def if_False)
qed

lemma length_cross_correlation [simp]: "length (cross_correlation E iS n) = n"
  by (simp add: cross_correlation_def)

lemma cross_correlation_window:
  assumes "length s \<le> n" and "k + length q \<le> length s" and "1 \<le> length q"
  shows "cross_correlation (q @ replicate (n - length q) 0) (s @ replicate (n - length s) 0) n ! k
           = (\<Sum>i<length q. q ! i * s ! (k + i))"
proof -
  let ?E = "q @ replicate (n - length q) 0" and ?iS = "s @ replicate (n - length s) 0"
  let ?m = "length q"
  have kn: "k < n" and mn: "?m \<le> n" using assms by simp_all
  have "cross_correlation ?E ?iS n ! k = (\<Sum>i\<leftarrow>[0..<n]. ?E ! i * ?iS ! ((i + k) mod n))"
    using kn by (simp add: cross_correlation_def)
  also have "\<dots> = (\<Sum>i\<in>{0..<n}. ?E ! i * ?iS ! ((i + k) mod n))"
    by (simp add: interv_sum_list_conv_sum_set_nat)
  also have "\<dots> = (\<Sum>i\<in>{0..<?m}. ?E ! i * ?iS ! ((i + k) mod n))
                  + (\<Sum>i\<in>{?m..<n}. ?E ! i * ?iS ! ((i + k) mod n))"
    using mn by (simp add: sum.atLeastLessThan_concat)
  also have "(\<Sum>i\<in>{?m..<n}. ?E ! i * ?iS ! ((i + k) mod n)) = 0"
  proof (rule sum.neutral, rule ballI)
    fix i assume "i \<in> {?m..<n}"
    then have "\<not> i < ?m" "i - ?m < n - ?m" by auto
    then have "?E ! i = 0" by (simp only: nth_append if_False nth_replicate)
    then show "?E ! i * ?iS ! ((i + k) mod n) = 0" by simp
  qed
  also have "(\<Sum>i\<in>{0..<?m}. ?E ! i * ?iS ! ((i + k) mod n)) = (\<Sum>i\<in>{0..<?m}. q ! i * s ! (k + i))"
  proof (rule sum.cong [OF refl])
    fix i assume "i \<in> {0..<?m}"
    then have i: "i < ?m" by simp
    then have "i + k < length s" using assms by simp
    then have "(i + k) mod n = i + k" "?iS ! (i + k) = s ! (k + i)"
      using assms by (simp_all add: nth_append add.commute)
    then show "?E ! i * ?iS ! ((i + k) mod n) = q ! i * s ! (k + i)"
      using i by (simp add: nth_append)
  qed
  finally show ?thesis by (simp add: atLeast0LessThan)
qed

lemma padded_window:
  assumes "k + m \<le> length s"
  shows "(\<Sum>j<m. map f (s @ replicate (n - length s) 0) ! (k + j)) = (\<Sum>j<m. f (s ! (k + j)))"
proof (rule sum.cong [OF refl])
  fix j assume "j \<in> {..<m}"
  then have "k + j < length s" using assms by simp
  then show "map f (s @ replicate (n - length s) 0) ! (k + j) = f (s ! (k + j))"
    by (simp add: nth_append)
qed

section \<open>The transform-domain engine in closed form\<close>

lemma square_expansion:
  "(\<Sum>i<m. (a i)\<^sup>2) - 2 * (\<Sum>i<m. a i * b i) + (\<Sum>i<m. (b i)\<^sup>2) = (\<Sum>i<m. (a i - b i :: real)\<^sup>2)"
  by (simp add: power2_diff sum.distrib sum_subtractf sum_distrib_left mult.assoc)

text \<open>
  The part all three transform-domain functions share: padding, the prefix sums and
  the slices, for a query of at least two entries that is not longer than the stream.
\<close>

lemma engine_buffers:
  assumes "0 < alignment" and "1 \<le> length q" and "length q \<le> length s"
  defines "n \<equiv> (length s + alignment - 1) div alignment * alignment"
  shows "padded_length (length s) alignment = Inr n"
    and "length s \<le> n"
    and "zero_padded s n = Inr (s @ replicate (n - length s) 0)"
    and "zero_padded q n = Inr (q @ replicate (n - length q) 0)"
    and "s @ replicate (n - length s) (0::real) \<noteq> []"
proof -
  show "padded_length (length s) alignment = Inr n"
    using assms(1) by (simp add: padded_length_def n_def)
  show le: "length s \<le> n"
    unfolding n_def by (rule padded_ge [OF assms(1)])
  then show "zero_padded s n = Inr (s @ replicate (n - length s) 0)"
    by (simp add: zero_padded_def)
  show "zero_padded q n = Inr (q @ replicate (n - length q) 0)"
    using le assms(3) by (simp add: zero_padded_def)
  show "s @ replicate (n - length s) (0::real) \<noteq> []"
    using assms(2,3) by auto
qed

lemma padded_windows:
  assumes "0 \<le> Kahan" and "1 \<le> m" and "m \<le> length s" and "length s \<le> n"
  shows "and_then (cumsum (map f (s @ replicate (n - length s) 0)) Kahan)
           (\<lambda>Y. and_then (broadcast2 (-) (drop m Y) (slice_to Y (- int m))) g)
         = g (map (\<lambda>k. \<Sum>j<m. map f (s @ replicate (n - length s) 0) ! (k + j)) [0..<n + 1 - m])"
proof -
  let ?x = "map f (s @ replicate (n - length s) 0)"
  have len: "length ?x = n" using assms(4) by simp
  have "?x \<noteq> []" using assms(2,3) by auto
  then have "cumsum ?x Kahan = Inr (0 # cp_cumsum 0 ?x)"
    using assms(1) by (intro cumsum_exact) simp_all
  moreover have "broadcast2 (-) (drop m (0 # cp_cumsum 0 ?x)) (slice_to (0 # cp_cumsum 0 ?x) (- int m))
      = Inr (map (\<lambda>k. \<Sum>j<m. ?x ! (k + j)) [0..<length ?x + 1 - m])"
    using assms(2,3,4) by (intro prefix_windows) simp_all
  ultimately show ?thesis
    by (simp only: and_then_simps len)
qed

lemma fft_sdist_eq:
  assumes "dtype Q = dtype S" and "0 < alignment" and "2 \<le> length (data Q)"
    and "length (data Q) \<le> length (data S)" and "0 \<le> Kahan"
  shows "fft_sdist Q S alignment Kahan
           = Inr (map (\<lambda>k. \<Sum>i<length (data Q). (data Q ! i - data S ! (k + i))\<^sup>2)
                   [0..<length (data S) + 1 - length (data Q)])"
proof -
  let ?q = "data Q" and ?s = "data S"
  let ?m = "length ?q" and ?n0 = "length ?s"
  define n where "n = (?n0 + alignment - 1) div alignment * alignment"
  have m1: "1 \<le> ?m" using assms(3) by simp
  note B = engine_buffers [OF assms(2) m1 assms(4), folded n_def]
  let ?iS = "?s @ replicate (n - ?n0) 0" and ?E = "?q @ replicate (n - ?m) 0"
  let ?R = "cross_correlation ?E ?iS n"
  let ?Y = "map (\<lambda>k. \<Sum>j<?m. map (\<lambda>v. v\<^sup>2) ?iS ! (k + j)) [0..<n + 1 - ?m]"
  let ?A = "map (\<lambda>r. cp_sum (map (\<lambda>v. v\<^sup>2) ?q) - 2 * r) (take (n + 1 - ?m) ?R)"
  have mn: "?m \<le> n" using B(2) assms(4) by simp
  have sl: "slice_to ?R (- int ?m + 1) = take (n + 1 - ?m) ?R"
    using slice_to_tail [of ?m ?R] assms(3) mn by simp
  have len: "length ?A = length ?Y" using mn m1 by simp
  have "fft_sdist Q S alignment Kahan
          = and_then (broadcast2 (+) ?A ?Y) (\<lambda>D. Inr (slice_to D (int ?n0 - int ?m + 1)))"
    unfolding fft_sdist_def Let_def
    by (simp only: assms(1) B and_then_simps padded_windows [OF assms(5) m1 assms(4) B(2)] sl
        simp_thms if_False)
  also have "\<dots> = Inr (take (?n0 + 1 - ?m) (map2 (+) ?A ?Y))"
    by (simp only: broadcast2_same [OF len] and_then_simps slice_to_result [OF assms(4)])
  also have "take (?n0 + 1 - ?m) (map2 (+) ?A ?Y)
               = map (\<lambda>k. \<Sum>i<?m. (?q ! i - ?s ! (k + i))\<^sup>2) [0..<?n0 + 1 - ?m]"
  proof (rule nth_equalityI)
    show "length (take (?n0 + 1 - ?m) (map2 (+) ?A ?Y))
            = length (map (\<lambda>k. \<Sum>i<?m. (?q ! i - ?s ! (k + i))\<^sup>2) [0..<?n0 + 1 - ?m])"
      using B(2) mn m1 by simp
  next
    fix k assume "k < length (take (?n0 + 1 - ?m) (map2 (+) ?A ?Y))"
    then have k: "k < ?n0 + 1 - ?m" by simp
    then have km: "k + ?m \<le> ?n0" and kn: "k < n + 1 - ?m" using B(2) assms(4) by simp_all
    have R: "?R ! k = (\<Sum>i<?m. ?q ! i * ?s ! (k + i))"
      by (rule cross_correlation_window [OF B(2) km m1])
    have Y: "(\<Sum>j<?m. map (\<lambda>v. v\<^sup>2) ?iS ! (k + j)) = (\<Sum>j<?m. (?s ! (k + j))\<^sup>2)"
      by (rule padded_window [OF km])
    have "take (?n0 + 1 - ?m) (map2 (+) ?A ?Y) ! k
            = cp_sum (map (\<lambda>v. v\<^sup>2) ?q) - 2 * ?R ! k + (\<Sum>j<?m. map (\<lambda>v. v\<^sup>2) ?iS ! (k + j))"
      using k kn mn m1 by simp
    also have "\<dots> = (\<Sum>i<?m. (?q ! i - ?s ! (k + i))\<^sup>2)"
      unfolding R Y cp_sum_map by (rule square_expansion)
    finally show "take (?n0 + 1 - ?m) (map2 (+) ?A ?Y) ! k
            = map (\<lambda>k. \<Sum>i<?m. (?q ! i - ?s ! (k + i))\<^sup>2) [0..<?n0 + 1 - ?m] ! k"
      using k by simp
  qed
  finally show ?thesis .
qed

lemma padded_at_least_alignment:
  assumes "0 < alignment" and "1 \<le> (l::nat)"
  shows "alignment \<le> (l + alignment - 1) div alignment * alignment"
proof -
  have "alignment \<le> l + alignment - 1" using assms by simp
  then have "1 \<le> (l + alignment - 1) div alignment"
    using assms(1) by (simp add: div_greater_zero_iff Suc_le_eq)
  then show ?thesis
    by (metis mult_le_mono1 nat_mult_1)
qed

lemma broadcast2_empty_raises:
  assumes "2 \<le> length ys"
  shows "broadcast2 f [] ys = Inl ValueError"
  using assms by (auto simp: broadcast2_def)

lemma padded_cumsum:
  assumes "0 \<le> Kahan" and "1 \<le> length s"
  shows "cumsum (map f (s @ replicate (n - length s) 0)) Kahan
           = Inr (0 # cp_cumsum 0 (map f (s @ replicate (n - length s) 0)))"
  using assms by (intro cumsum_exact) auto

lemma padded_prefix_windows:
  assumes "1 \<le> m" and "m \<le> length s" and "length s \<le> n"
  shows "broadcast2 (-) (drop m (0 # cp_cumsum 0 (map f (s @ replicate (n - length s) 0))))
             (slice_to (0 # cp_cumsum 0 (map f (s @ replicate (n - length s) 0))) (- int m))
           = Inr (map (\<lambda>k. \<Sum>j<m. map f (s @ replicate (n - length s) 0) ! (k + j)) [0..<n + 1 - m])"
proof -
  let ?x = "map f (s @ replicate (n - length s) 0)"
  have len: "length ?x = n" using assms(3) by simp
  have "broadcast2 (-) (drop m (0 # cp_cumsum 0 ?x)) (slice_to (0 # cp_cumsum 0 ?x) (- int m))
      = Inr (map (\<lambda>k. \<Sum>j<m. ?x ! (k + j)) [0..<length ?x + 1 - m])"
    using assms by (intro prefix_windows) simp_all
  then show ?thesis by (simp only: len)
qed

lemma fft_sdist_single:
  assumes "dtype Q = dtype S" and "2 \<le> alignment" and "length (data Q) = 1"
    and "1 \<le> length (data S)" and "0 \<le> Kahan"
  shows "fft_sdist Q S alignment Kahan = Inl ValueError"
proof -
  let ?q = "data Q" and ?s = "data S"
  define n where "n = (length ?s + alignment - 1) div alignment * alignment"
  have a: "0 < alignment" using assms(2) by simp
  have m1: "1 \<le> length ?q" and mn: "length ?q \<le> length ?s" using assms(3,4) by simp_all
  note B = engine_buffers [OF a m1 mn, folded n_def]
  have n2: "2 \<le> n"
    using padded_at_least_alignment [OF a assms(4)] assms(2) unfolding n_def by linarith
  let ?Y = "map (\<lambda>k. \<Sum>j<length ?q. map (\<lambda>v. v\<^sup>2) (?s @ replicate (n - length ?s) 0) ! (k + j))
              [0..<n + 1 - length ?q]"
  have sl: "slice_to R (- int (length ?q) + 1) = []" for R :: "real list"
    by (simp add: assms(3) slice_to_def)
  have "2 \<le> length ?Y" using n2 assms(3) by simp
  then have bc: "broadcast2 (+) [] ?Y = Inl ValueError"
    by (rule broadcast2_empty_raises)
  show ?thesis
    unfolding fft_sdist_def Let_def
    by (simp only: assms(1) B and_then_simps padded_cumsum [OF assms(5,4)]
        padded_prefix_windows [OF m1 mn B(2)] sl list.map bc simp_thms if_False)
qed

section \<open>The public operations\<close>

lemma array1_simps [simp]:
  "dtype (array1 t xs) = t" "shape (array1 t xs) = [length xs]" "data (array1 t xs) = xs"
  by (simp_all add: array1_def)

lemma shapes_ok_array1 [simp]:
  "shapes_ok (array1 t xs) (array1 u ys) \<longleftrightarrow> length xs \<le> length ys"
  by (simp add: shapes_ok_def)

lemma length_cp_empty [simp]: "length (cp_empty n mem) = n"
  by (simp add: cp_empty_def)

lemma sdist_direct_eq:
  assumes "dtype Q = dtype S" and "shapes_ok Q S" and "mode \<noteq> ''fft''"
    and "length (data Q) \<le> length (data S)"
  shows "sdist Q S mode mem
           = Inr (map (\<lambda>k. \<Sum>i<length (data Q). (data Q ! i - data S ! (k + i))\<^sup>2)
                   [0..<length (data S) + 1 - length (data Q)])"
proof -
  have "length (cp_empty (length (data S) - length (data Q) + 1) mem)
          = length (data S) + 1 - length (data Q)"
    using assms(4) by simp
  from sdist_kernel_eq [OF this] assms(1,2,3) show ?thesis
    by (simp add: sdist_def Let_def)
qed

section \<open>Mean adjustment and Z-normalization\<close>

lemma cp_mean_eq: "cp_mean a = (\<Sum>i<length a. a ! i) / real (length a)"
  by (simp add: cp_mean_def cp_sum_eq)

lemma cp_var_eq: "cp_var a = (\<Sum>i<length a. (a ! i - cp_mean a)\<^sup>2) / real (length a)"
  by (simp add: cp_var_def cp_mean_def [of "map _ _"] cp_sum_map)

lemma cp_var_nonneg: "0 \<le> cp_var a"
  unfolding cp_var_eq by (intro divide_nonneg_nonneg sum_nonneg) simp_all

lemma cp_std_squared: "(cp_std a)\<^sup>2 = cp_var a"
  by (simp add: cp_std_def cp_var_nonneg)

lemma cp_std_nonneg: "0 \<le> cp_std a"
  by (simp add: cp_std_def cp_var_nonneg)

lemma deviations_sum_zero:
  assumes "a \<noteq> []"
  shows "(\<Sum>i<length a. a ! i - cp_mean a) = 0"
proof -
  have "real (length a) \<noteq> 0" using assms by simp
  then show ?thesis
    by (simp add: sum_subtractf cp_mean_eq)
qed

lemma mnorm_length [simp]: "length (mnorm x) = length x"
  by (simp add: mnorm_def)

lemma mnorm_nth: "i < length x \<Longrightarrow> mnorm x ! i = x ! i - cp_mean x"
  by (simp add: mnorm_def)

lemma mnorm_sum_zero:
  assumes "x \<noteq> []"
  shows "(\<Sum>i<length x. mnorm x ! i) = 0"
proof -
  have "(\<Sum>i<length x. mnorm x ! i) = (\<Sum>i<length x. x ! i - cp_mean x)"
    by (rule sum.cong) (simp_all add: mnorm_nth)
  then show ?thesis by (simp only: deviations_sum_zero [OF assms])
qed

lemma znorm_length [simp]: "length (znorm x epsilon) = length x"
  by (simp add: znorm_def)

lemma znorm_nth:
  "i < length x \<Longrightarrow> znorm x epsilon ! i = (x ! i - cp_mean x) / max (cp_std x) epsilon"
  by (simp add: znorm_def)

lemma znorm_sum_zero:
  assumes "x \<noteq> []"
  shows "(\<Sum>i<length x. znorm x epsilon ! i) = 0"
proof -
  have "(\<Sum>i<length x. znorm x epsilon ! i)
          = (\<Sum>i<length x. (x ! i - cp_mean x) / max (cp_std x) epsilon)"
    by (rule sum.cong) (simp_all add: znorm_nth)
  also have "\<dots> = (\<Sum>i<length x. x ! i - cp_mean x) / max (cp_std x) epsilon"
    by (simp only: sum_divide_distrib)
  finally show ?thesis by (simp only: deviations_sum_zero [OF assms] div_0)
qed

lemma znorm_sumsq:
  assumes "x \<noteq> []"
  shows "(\<Sum>i<length x. (znorm x epsilon ! i)\<^sup>2)
           = real (length x) * cp_var x / (max (cp_std x) epsilon)\<^sup>2"
proof -
  have "(\<Sum>i<length x. (znorm x epsilon ! i)\<^sup>2)
          = (\<Sum>i<length x. (x ! i - cp_mean x)\<^sup>2 / (max (cp_std x) epsilon)\<^sup>2)"
    by (rule sum.cong) (simp_all add: znorm_nth power_divide)
  also have "\<dots> = (\<Sum>i<length x. (x ! i - cp_mean x)\<^sup>2) / (max (cp_std x) epsilon)\<^sup>2"
    by (simp only: sum_divide_distrib)
  also have "(\<Sum>i<length x. (x ! i - cp_mean x)\<^sup>2) = real (length x) * cp_var x"
    using assms by (simp add: cp_var_eq)
  finally show ?thesis .
qed

lemma znorm_sumsq_unit:
  assumes "0 < cp_std x" and "epsilon \<le> cp_std x"
  shows "(\<Sum>i<length x. (znorm x epsilon ! i)\<^sup>2) = real (length x)"
proof -
  have "x \<noteq> []" using assms(1) by (auto simp: cp_std_def cp_var_def cp_mean_def)
  moreover have "max (cp_std x) epsilon = cp_std x" using assms(2) by simp
  moreover have "cp_var x \<noteq> 0" using assms(1) by (auto simp: cp_std_def)
  ultimately show ?thesis
    by (simp add: znorm_sumsq cp_std_squared)
qed


lemmas padded_cumsum_id = padded_cumsum [where f = "\<lambda>v. v", unfolded list.map_ident]
lemmas padded_prefix_windows_id = padded_prefix_windows [where f = "\<lambda>v. v", unfolded list.map_ident]
lemmas padded_window_id = padded_window [where f = "\<lambda>v. v", unfolded list.map_ident]

lemma mean_adjust_expansion:
  fixes a b :: "nat \<Rightarrow> real"
  assumes "0 < m" and "(\<Sum>i<m. a i) = 0"
  shows "(\<Sum>i<m. (a i)\<^sup>2) - 2 * (\<Sum>i<m. a i * b i)
           + ((\<Sum>i<m. (b i)\<^sup>2) - (\<Sum>i<m. b i) * (\<Sum>i<m. b i) / real m)
         = (\<Sum>i<m. (a i - b i + (\<Sum>i<m. b i) / real m)\<^sup>2)"
proof -
  define mu where "mu = (\<Sum>i<m. b i) / real m"
  have X: "(\<Sum>i<m. b i) = real m * mu" using assms(1) by (simp add: mu_def)
  have "(\<Sum>i<m. (a i - b i + mu)\<^sup>2) = (\<Sum>i<m. (a i - (b i - mu))\<^sup>2)"
    by (simp add: algebra_simps)
  also have "\<dots> = (\<Sum>i<m. (a i)\<^sup>2) - 2 * (\<Sum>i<m. a i * (b i - mu)) + (\<Sum>i<m. (b i - mu)\<^sup>2)"
    by (rule square_expansion [symmetric])
  also have "(\<Sum>i<m. a i * (b i - mu)) = (\<Sum>i<m. a i * b i) - (\<Sum>i<m. a i) * mu"
    by (simp add: right_diff_distrib sum_subtractf sum_distrib_right)
  also have "(\<Sum>i<m. (b i - mu)\<^sup>2) = (\<Sum>i<m. (b i)\<^sup>2) - 2 * mu * (\<Sum>i<m. b i) + real m * mu\<^sup>2"
  proof -
    have "(b i - mu)\<^sup>2 = (b i)\<^sup>2 - 2 * mu * b i + mu\<^sup>2" for i
      by (simp add: power2_diff mult.commute mult.left_commute)
    then have "(\<Sum>i<m. (b i - mu)\<^sup>2) = (\<Sum>i<m. (b i)\<^sup>2 - 2 * mu * b i + mu\<^sup>2)"
      by (simp only:)
    then show ?thesis
      by (simp add: sum.distrib sum_subtractf flip: sum_distrib_left)
  qed
  finally have "(\<Sum>i<m. (a i - b i + mu)\<^sup>2)
      = (\<Sum>i<m. (a i)\<^sup>2) - 2 * (\<Sum>i<m. a i * b i) + ((\<Sum>i<m. (b i)\<^sup>2) - real m * mu\<^sup>2)"
    by (simp add: assms(2) X power2_eq_square)
  moreover have "(\<Sum>i<m. b i) * (\<Sum>i<m. b i) / real m = real m * mu\<^sup>2"
    using assms(1) by (simp add: X power2_eq_square)
  ultimately show ?thesis by (simp add: mu_def)
qed

lemma fft_mdist_eq:
  assumes "0 < alignment" and "2 \<le> length (data Q)"
    and "length (data Q) \<le> length (data S)" and "0 \<le> Kahan"
  shows "fft_mdist Q S alignment Kahan
           = Inr (map (\<lambda>k. \<Sum>i<length (data Q).
                          (mnorm (data Q) ! i - data S ! (k + i)
                             + window_mean (data S) (length (data Q)) k)\<^sup>2)
                   [0..<length (data S) + 1 - length (data Q)])"
proof -
  let ?q = "mnorm (data Q)" and ?s = "data S"
  let ?m = "length (data Q)" and ?n0 = "length ?s"
  define n where "n = (?n0 + alignment - 1) div alignment * alignment"
  have m1: "1 \<le> ?m" and m1': "1 \<le> length ?q" and mn0: "length ?q \<le> ?n0"
    and s1: "1 \<le> ?n0" and m0: "0 < ?m"
    using assms(2,3) by auto
  note B = engine_buffers [OF assms(1) m1' mn0, folded n_def, unfolded mnorm_length]
  let ?iS = "?s @ replicate (n - ?n0) 0" and ?E = "?q @ replicate (n - ?m) 0"
  let ?R = "cross_correlation ?E ?iS n"
  let ?X = "map (\<lambda>k. \<Sum>j<?m. ?iS ! (k + j)) [0..<n + 1 - ?m]"
  let ?Y = "map (\<lambda>k. \<Sum>j<?m. map (\<lambda>v. v\<^sup>2) ?iS ! (k + j)) [0..<n + 1 - ?m]"
  let ?Z = "map2 (\<lambda>y x. y - x * x / real ?m) ?Y ?X"
  let ?A = "map (\<lambda>r. cp_sum (map (\<lambda>v. v\<^sup>2) ?q) - 2 * r) (take (n + 1 - ?m) ?R)"
  have mn: "?m \<le> n" using B(2) assms(3) by simp
  have sl: "slice_to ?R (- int ?m + 1) = take (n + 1 - ?m) ?R"
    using slice_to_tail [of ?m ?R] assms(2) mn by simp
  have len: "length ?A = length ?Z" using mn m1 by simp
  have "fft_mdist Q S alignment Kahan
          = and_then (broadcast2 (+) ?A ?Z) (\<lambda>D. Inr (slice_to D (int ?n0 - int ?m + 1)))"
    unfolding fft_mdist_def Let_def
    by (simp only: B and_then_simps padded_cumsum [OF assms(4) s1] padded_cumsum_id [OF assms(4) s1]
        padded_prefix_windows [OF m1 assms(3) B(2)] padded_prefix_windows_id [OF m1 assms(3) B(2)] sl)
  also have "\<dots> = Inr (take (?n0 + 1 - ?m) (map2 (+) ?A ?Z))"
    by (simp only: broadcast2_same [OF len] and_then_simps slice_to_result [OF assms(3)])
  also have "take (?n0 + 1 - ?m) (map2 (+) ?A ?Z)
      = map (\<lambda>k. \<Sum>i<?m. (?q ! i - ?s ! (k + i) + window_mean ?s ?m k)\<^sup>2) [0..<?n0 + 1 - ?m]"
  proof (rule nth_equalityI)
    show "length (take (?n0 + 1 - ?m) (map2 (+) ?A ?Z))
        = length (map (\<lambda>k. \<Sum>i<?m. (?q ! i - ?s ! (k + i) + window_mean ?s ?m k)\<^sup>2)
            [0..<?n0 + 1 - ?m])"
      using B(2) mn m1 by simp
  next
    fix k assume "k < length (take (?n0 + 1 - ?m) (map2 (+) ?A ?Z))"
    then have k: "k < ?n0 + 1 - ?m" by simp
    then have km: "k + ?m \<le> ?n0" and kn: "k < n + 1 - ?m" using B(2) assms(3) by simp_all
    have km': "k + length ?q \<le> ?n0" using km by simp
    have R: "?R ! k = (\<Sum>i<?m. ?q ! i * ?s ! (k + i))"
      using cross_correlation_window [OF B(2) km' m1'] by (simp only: mnorm_length)
    have Y: "(\<Sum>j<?m. map (\<lambda>v. v\<^sup>2) ?iS ! (k + j)) = (\<Sum>j<?m. (?s ! (k + j))\<^sup>2)"
      by (rule padded_window [OF km])
    have X: "(\<Sum>j<?m. ?iS ! (k + j)) = (\<Sum>j<?m. ?s ! (k + j))"
      by (rule padded_window_id [OF km])
    have zero: "(\<Sum>i<?m. ?q ! i) = 0"
      using mnorm_sum_zero [of "data Q"] m0 by auto
    have "take (?n0 + 1 - ?m) (map2 (+) ?A ?Z) ! k
        = cp_sum (map (\<lambda>v. v\<^sup>2) ?q) - 2 * ?R ! k
          + ((\<Sum>j<?m. map (\<lambda>v. v\<^sup>2) ?iS ! (k + j))
              - (\<Sum>j<?m. ?iS ! (k + j)) * (\<Sum>j<?m. ?iS ! (k + j)) / real ?m)"
      using k kn mn m1 by simp
    also have "\<dots> = (\<Sum>i<?m. (?q ! i)\<^sup>2) - 2 * (\<Sum>i<?m. ?q ! i * ?s ! (k + i))
          + ((\<Sum>j<?m. (?s ! (k + j))\<^sup>2) - (\<Sum>j<?m. ?s ! (k + j)) * (\<Sum>j<?m. ?s ! (k + j)) / real ?m)"
      by (simp only: R X Y cp_sum_map mnorm_length)
    also have "\<dots> = (\<Sum>i<?m. (?q ! i - ?s ! (k + i) + (\<Sum>j<?m. ?s ! (k + j)) / real ?m)\<^sup>2)"
      by (rule mean_adjust_expansion [OF m0 zero])
    finally show "take (?n0 + 1 - ?m) (map2 (+) ?A ?Z) ! k
        = map (\<lambda>k. \<Sum>i<?m. (?q ! i - ?s ! (k + i) + window_mean ?s ?m k)\<^sup>2)
            [0..<?n0 + 1 - ?m] ! k"
      using k by (simp add: window_mean_def window_sum_def)
  qed
  finally show ?thesis .
qed

lemma padded_window_apply:
  assumes "k + m \<le> length s"
  shows "(\<Sum>j<m. f ((s @ replicate (n - length s) 0) ! (k + j))) = (\<Sum>j<m. f (s ! (k + j)))"
proof (rule sum.cong [OF refl])
  fix j assume "j \<in> {..<m}"
  then have "k + j < length s" using assms by simp
  then show "f ((s @ replicate (n - length s) 0) ! (k + j)) = f (s ! (k + j))"
    by (simp add: nth_append)
qed

lemma fft_zdist_eq:
  assumes "0 < epsilon" and "0 < alignment" and "2 \<le> length (data Q)"
    and "length (data Q) \<le> length (data S)" and "0 \<le> Kahan"
  shows "fft_zdist Q S epsilon alignment Kahan
           = Inr (map (\<lambda>k. if window_var (data S) (length (data Q)) k > 0
                          then 2 * (real (length (data Q))
                                 - (\<Sum>i<length (data Q). znorm (data Q) epsilon ! i * data S ! (k + i))
                                     / sqrt (window_var (data S) (length (data Q)) k))
                          else real (length (data Q)))
                   [0..<length (data S) + 1 - length (data Q)])"
proof -
  let ?q = "znorm (data Q) epsilon" and ?s = "data S"
  let ?m = "length (data Q)" and ?n0 = "length ?s"
  define n where "n = (?n0 + alignment - 1) div alignment * alignment"
  have m1: "1 \<le> ?m" and m1': "1 \<le> length ?q" and mn0: "length ?q \<le> ?n0"
    and s1: "1 \<le> ?n0" and m0: "0 < ?m"
    using assms(3,4) by auto
  note B = engine_buffers [OF assms(2) m1' mn0, folded n_def, unfolded znorm_length]
  let ?iS = "?s @ replicate (n - ?n0) 0" and ?E = "?q @ replicate (n - ?m) 0"
  let ?R = "cross_correlation ?E ?iS n"
  let ?X = "map (\<lambda>k. \<Sum>j<?m. ?iS ! (k + j)) [0..<n + 1 - ?m]"
  let ?Y = "map (\<lambda>k. \<Sum>j<?m. map (\<lambda>v. v\<^sup>2) ?iS ! (k + j)) [0..<n + 1 - ?m]"
  let ?Z = "map2 (\<lambda>y x. sqrt (max (y / real ?m - (x / real ?m)\<^sup>2) 0)) ?Y ?X"
  let ?A = "map2 (\<lambda>r z. 2 * (real ?m - r / z)) (take (n + 1 - ?m) ?R) ?Z"
  let ?F = "map2 (\<lambda>z a. if z > 0 then a else real ?m) ?Z ?A"
  let ?res = "\<lambda>k. if window_var ?s ?m k > 0
                 then 2 * (real ?m - (\<Sum>i<?m. ?q ! i * ?s ! (k + i)) / sqrt (window_var ?s ?m k))
                 else real ?m"
  have mn: "?m \<le> n" using B(2) assms(4) by simp
  have sl: "slice_to ?R (- int ?m + 1) = take (n + 1 - ?m) ?R"
    using slice_to_tail [of ?m ?R] assms(3) mn by simp
  have len: "length (take (n + 1 - ?m) ?R) = length ?Z" using mn m1 by simp
  have "fft_zdist Q S epsilon alignment Kahan
          = and_then (broadcast2 (\<lambda>r z. 2 * (real ?m - r / z)) (take (n + 1 - ?m) ?R) ?Z)
              (\<lambda>A. Inr (slice_to (map2 (\<lambda>z a. if z > 0 then a else real ?m) ?Z A)
                           (int ?n0 - int ?m + 1)))"
    unfolding fft_zdist_def Let_def
    by (simp only: assms(1) B and_then_simps padded_cumsum [OF assms(5) s1]
        padded_cumsum_id [OF assms(5) s1] padded_prefix_windows [OF m1 assms(4) B(2)]
        padded_prefix_windows_id [OF m1 assms(4) B(2)] sl simp_thms if_False)
  also have "\<dots> = Inr (take (?n0 + 1 - ?m) ?F)"
    by (simp only: broadcast2_same [OF len] and_then_simps slice_to_result [OF assms(4)])
  also have "take (?n0 + 1 - ?m) ?F = map ?res [0..<?n0 + 1 - ?m]"
  proof (rule nth_equalityI)
    show "length (take (?n0 + 1 - ?m) ?F) = length (map ?res [0..<?n0 + 1 - ?m])"
      using B(2) mn m1 by simp
  next
    fix k assume "k < length (take (?n0 + 1 - ?m) ?F)"
    then have k: "k < ?n0 + 1 - ?m" by simp
    then have km: "k + ?m \<le> ?n0" and kn: "k < n + 1 - ?m" using B(2) assms(4) by simp_all
    have km': "k + length ?q \<le> ?n0" using km by simp
    have R: "?R ! k = (\<Sum>i<?m. ?q ! i * ?s ! (k + i))"
      using cross_correlation_window [OF B(2) km' m1'] by (simp only: znorm_length)
    have Y: "(\<Sum>j<?m. map (\<lambda>v. v\<^sup>2) ?iS ! (k + j)) = window_sumsq ?s ?m k"
      unfolding window_sumsq_def power2_eq_square [symmetric] by (rule padded_window [OF km])
    have X: "(\<Sum>j<?m. ?iS ! (k + j)) = window_sum ?s ?m k"
      unfolding window_sum_def by (rule padded_window_id [OF km])
    have var: "window_sumsq ?s ?m k / real ?m - (window_sum ?s ?m k / real ?m)\<^sup>2
                 = window_var ?s ?m k"
      by (simp add: window_var_def window_mean_def power2_eq_square)
    have Y': "(\<Sum>j<?m. (?iS ! (k + j))\<^sup>2) = window_sumsq ?s ?m k"
      unfolding window_sumsq_def power2_eq_square [symmetric] by (rule padded_window_apply [OF km])
    have Z: "?Z ! k = sqrt (max (window_var ?s ?m k) 0)"
      using kn by (simp add: X Y Y' var del: map_append)
    have "take (?n0 + 1 - ?m) ?F ! k
            = (if ?Z ! k > 0 then 2 * (real ?m - ?R ! k / ?Z ! k) else real ?m)"
      using k kn mn m1 by simp
    also have "\<dots> = ?res k"
      unfolding Z R by (simp add: max_def)
    finally show "take (?n0 + 1 - ?m) ?F ! k = map ?res [0..<?n0 + 1 - ?m] ! k"
      using k by simp
  qed
  finally show ?thesis .
qed

section \<open>Window statistics\<close>

lemma deviation_sumsq:
  fixes b :: "nat \<Rightarrow> real"
  assumes "0 < m"
  defines "mu \<equiv> (\<Sum>i<m. b i) / real m"
  shows "(\<Sum>i<m. (b i - mu)\<^sup>2) = real m * ((\<Sum>i<m. b i * b i) / real m - mu * mu)"
proof -
  have X: "(\<Sum>i<m. b i) = real m * mu" using assms(1) by (simp add: mu_def)
  have "(b i - mu)\<^sup>2 = b i * b i - 2 * mu * b i + mu * mu" for i
    by (simp add: power2_eq_square algebra_simps)
  then have "(\<Sum>i<m. (b i - mu)\<^sup>2) = (\<Sum>i<m. b i * b i - 2 * mu * b i + mu * mu)"
    by (simp only:)
  also have "\<dots> = (\<Sum>i<m. b i * b i) - 2 * mu * (\<Sum>i<m. b i) + real m * (mu * mu)"
    by (simp add: sum.distrib sum_subtractf flip: sum_distrib_left)
  also have "\<dots> = (\<Sum>i<m. b i * b i) - real m * (mu * mu)"
    by (simp add: X)
  finally show ?thesis using assms(1) by (simp add: right_diff_distrib)
qed

lemma window_deviation:
  assumes "0 < m"
  shows "(\<Sum>j<m. (S ! (k + j) - window_mean S m k)\<^sup>2) = real m * window_var S m k"
  using deviation_sumsq [OF assms, of "\<lambda>j. S ! (k + j)"]
  by (simp only: window_var_def window_mean_def window_sum_def window_sumsq_def)

lemma window_var_nonneg:
  assumes "0 < m"
  shows "0 \<le> window_var S m k"
proof -
  have "0 \<le> (\<Sum>j<m. (S ! (k + j) - window_mean S m k)\<^sup>2)"
    by (rule sum_nonneg) simp
  then have "0 \<le> real m * window_var S m k"
    by (simp only: window_deviation [OF assms])
  then show ?thesis using assms by (simp add: zero_le_mult_iff)
qed

lemma flat_window:
  assumes "0 < m" and "\<not> window_var S m k > 0" and "j < m"
  shows "S ! (k + j) = window_mean S m k"
proof -
  have "window_var S m k = 0"
    using window_var_nonneg [OF assms(1), of S k] assms(2) by simp
  then have "(\<Sum>j<m. (S ! (k + j) - window_mean S m k)\<^sup>2) = 0"
    by (simp add: window_deviation [OF assms(1)])
  then have "\<forall>j\<in>{..<m}. (S ! (k + j) - window_mean S m k)\<^sup>2 = 0"
    by (subst (asm) sum_nonneg_eq_0_iff) simp_all
  then show ?thesis using assms(3) by simp
qed

lemma constant_window_var:
  assumes "0 < m" and "\<forall>j<m. S ! (k + j) = c"
  shows "window_var S m k = 0"
proof -
  have "window_sum S m k = real m * c" "window_sumsq S m k = real m * (c * c)"
    using assms(2) by (simp_all add: window_sum_def window_sumsq_def)
  then show ?thesis using assms(1) by (simp add: window_var_def window_mean_def)
qed

text \<open>
  The window scaled to zero mean and unit deviation: its squares add up to \<open>m\<close>, and its
  product with a zero-sum query is the cross-correlation divided by the deviation.
\<close>

lemma scaled_window:
  fixes a :: "nat \<Rightarrow> real"
  assumes "0 < m" and "window_var S m k > 0"
  defines "d \<equiv> (\<lambda>i. (S ! (k + i) - window_mean S m k) / sqrt (window_var S m k))"
  shows "(\<Sum>i<m. (d i)\<^sup>2) = real m"
    and "(\<Sum>i<m. a i) = 0 \<Longrightarrow> (\<Sum>i<m. a i * d i) = (\<Sum>i<m. a i * S ! (k + i)) / sqrt (window_var S m k)"
proof -
  let ?v = "window_var S m k" and ?mu = "window_mean S m k"
  have "(\<Sum>i<m. (d i)\<^sup>2) = (\<Sum>i<m. (S ! (k + i) - ?mu)\<^sup>2 / ?v)"
    using assms(2) by (simp add: d_def power_divide)
  also have "\<dots> = (\<Sum>i<m. (S ! (k + i) - ?mu)\<^sup>2) / ?v"
    by (simp only: sum_divide_distrib)
  finally show "(\<Sum>i<m. (d i)\<^sup>2) = real m"
    using assms(2) by (simp add: window_deviation [OF assms(1)])
next
  let ?v = "window_var S m k" and ?mu = "window_mean S m k"
  assume zero: "(\<Sum>i<m. a i) = 0"
  have "(\<Sum>i<m. a i * d i) = (\<Sum>i<m. (a i * S ! (k + i) - a i * ?mu) / sqrt ?v)"
    by (simp add: d_def right_diff_distrib)
  also have "\<dots> = ((\<Sum>i<m. a i * S ! (k + i)) - (\<Sum>i<m. a i) * ?mu) / sqrt ?v"
    by (simp add: sum_divide_distrib sum_subtractf sum_distrib_right diff_divide_distrib)
  finally show "(\<Sum>i<m. a i * d i) = (\<Sum>i<m. a i * S ! (k + i)) / sqrt ?v"
    by (simp add: zero)
qed

lemma z_direct_entry_pos:
  fixes a :: "nat \<Rightarrow> real"
  assumes "0 < m" and "window_var S m k > 0" and "(\<Sum>i<m. a i) = 0"
  shows "(\<Sum>i<m. (a i - (S ! (k + i) - window_mean S m k) / window_sigma S m k epsilon)\<^sup>2)
           = (\<Sum>i<m. (a i)\<^sup>2) - 2 * ((\<Sum>i<m. a i * S ! (k + i)) / sqrt (window_var S m k)) + real m"
proof -
  let ?d = "\<lambda>i. (S ! (k + i) - window_mean S m k) / sqrt (window_var S m k)"
  have "window_sigma S m k epsilon = sqrt (window_var S m k)"
    using assms(2) by (simp add: window_sigma_def)
  then have "(\<Sum>i<m. (a i - (S ! (k + i) - window_mean S m k) / window_sigma S m k epsilon)\<^sup>2)
      = (\<Sum>i<m. (a i - ?d i)\<^sup>2)"
    by (simp only:)
  also have "\<dots> = (\<Sum>i<m. (a i)\<^sup>2) - 2 * (\<Sum>i<m. a i * ?d i) + (\<Sum>i<m. (?d i)\<^sup>2)"
    by (rule square_expansion [symmetric])
  finally show ?thesis
    by (simp only: scaled_window(1) [OF assms(1,2)] scaled_window(2) [OF assms(1,2,3)])
qed

lemma z_direct_entry_flat:
  fixes a :: "nat \<Rightarrow> real"
  assumes "0 < m" and "\<not> window_var S m k > 0"
  shows "(\<Sum>i<m. (a i - (S ! (k + i) - window_mean S m k) / window_sigma S m k epsilon)\<^sup>2)
           = (\<Sum>i<m. (a i)\<^sup>2)"
proof (rule sum.cong [OF refl])
  fix i assume "i \<in> {..<m}"
  then have "S ! (k + i) = window_mean S m k"
    using flat_window [OF assms] by simp
  then show "(a i - (S ! (k + i) - window_mean S m k) / window_sigma S m k epsilon)\<^sup>2 = (a i)\<^sup>2"
    by simp
qed


section \<open>The public operations in closed form\<close>

lemma shapes_ok_lengths:
  assumes "wf_ndarray Q" and "wf_ndarray S" and "shapes_ok Q S"
  shows "length (data Q) \<le> length (data S)"
proof -
  from assms(3) obtain a b where "shape Q = [a]" "shape S = [b]" "a \<le> b"
    by (auto simp: shapes_ok_def length_Suc_conv)
  then show ?thesis using assms(1,2) by (simp add: wf_ndarray_def)
qed

lemma mdist_direct_eq:
  assumes "dtype Q = dtype S" and "shapes_ok Q S" and "mode \<noteq> ''fft''"
    and "length (data Q) \<le> length (data S)"
  shows "mdist Q S mode mem
           = Inr (map (\<lambda>k. \<Sum>i<length (data Q).
                          (mnorm (data Q) ! i - data S ! (k + i)
                             + window_mean (data S) (length (data Q)) k)\<^sup>2)
                   [0..<length (data S) + 1 - length (data Q)])"
proof -
  have "length (cp_empty (length (data S) - length (data Q) + 1) mem)
          = length (data S) + 1 - length (mnorm (data Q))"
    using assms(4) by simp
  from mdist_kernel_eq [OF this] assms(1,2,3) show ?thesis
    by (simp add: mdist_def Let_def)
qed

lemma zdist_direct_eq:
  assumes "0 < epsilon" and "dtype Q = dtype S" and "shapes_ok Q S" and "0 < std (data Q)"
    and "mode \<noteq> ''fft''" and "length (data Q) \<le> length (data S)"
  shows "zdist Q S mode epsilon std mem
           = Inr (map (\<lambda>k. \<Sum>i<length (data Q).
                          (znorm (data Q) epsilon ! i
                             - (data S ! (k + i) - window_mean (data S) (length (data Q)) k)
                                 / window_sigma (data S) (length (data Q)) k epsilon)\<^sup>2)
                   [0..<length (data S) + 1 - length (data Q)])"
proof -
  have "length (cp_empty (length (data S) - length (data Q) + 1) mem)
          = length (data S) + 1 - length (znorm (data Q) epsilon)"
    using assms(6) by simp
  from zdist_kernel_eq [OF this] assms(1-5) show ?thesis
    by (simp add: zdist_def Let_def)
qed

text \<open>A query with positive standard deviation has at least two entries.\<close>

lemma cp_std_pos_length:
  assumes "0 < cp_std x"
  shows "2 \<le> length x"
proof (rule ccontr)
  assume "\<not> 2 \<le> length x"
  then consider "x = []" | v where "x = [v]"
    by (cases x; cases "tl x") auto
  then have "cp_var x = 0"
    by cases (simp_all add: cp_var_eq cp_mean_eq)
  with assms show False by (simp add: cp_std_def)
qed

lemma zdist_fft_eq:
  assumes "0 < epsilon" and "dtype Q = dtype S" and "shapes_ok Q S" and "0 < std (data Q)"
    and "length (data Q) \<le> length (data S)" and "2 \<le> length (data Q)"
  shows "zdist Q S ''fft'' epsilon std mem
           = Inr (map (\<lambda>k. if window_var (data S) (length (data Q)) k > 0
                          then 2 * (real (length (data Q))
                                 - (\<Sum>i<length (data Q). znorm (data Q) epsilon ! i * data S ! (k + i))
                                     / sqrt (window_var (data S) (length (data Q)) k))
                          else real (length (data Q)))
                   [0..<length (data S) + 1 - length (data Q)])"
proof -
  have "fft_zdist Q S epsilon 10000 0 = Inr (map (\<lambda>k. if window_var (data S) (length (data Q)) k > 0
                          then 2 * (real (length (data Q))
                                 - (\<Sum>i<length (data Q). znorm (data Q) epsilon ! i * data S ! (k + i))
                                     / sqrt (window_var (data S) (length (data Q)) k))
                          else real (length (data Q)))
                   [0..<length (data S) + 1 - length (data Q)])"
    using assms(1,5,6) by (intro fft_zdist_eq) simp_all
  then show ?thesis using assms(1-4) by (simp add: zdist_def)
qed

lemma cp_mean_pair: "cp_mean [a, b] = (a + b) / 2"
  by (simp add: cp_mean_def cp_sum_def)

lemma cp_var_pair: "cp_var [a, b] = ((a - b) / 2)\<^sup>2"
  by (simp add: cp_var_def cp_mean_def cp_sum_def power2_eq_square field_simps)

lemma cp_std_pair: "cp_std [a, b] = \<bar>a - b\<bar> / 2"
  by (simp add: cp_std_def cp_var_pair real_sqrt_divide)

section \<open>The normalization helper against its specification\<close>

lemma cp_sum_sum_list: "cp_sum a = sum_list a"
  by (simp add: cp_sum_eq sum_list_sum_nth atLeast0LessThan)

lemma cp_mean_arithmetic_mean: "cp_mean x = arithmetic_mean x"
  by (simp add: cp_mean_def arithmetic_mean_def cp_sum_sum_list)

lemma cp_var_population_variance: "cp_var x = population_variance x"
  by (simp add: cp_var_def population_variance_def cp_mean_arithmetic_mean
      arithmetic_mean_def [of "map _ _"])

lemma cp_std_population_stdev: "cp_std x = population_stdev x"
  by (simp add: cp_std_def population_stdev_def cp_var_population_variance)

lemma znorm_variance:
  assumes "x \<noteq> []" and "0 < epsilon"
  shows "cp_var (znorm x epsilon) = (cp_std x / max (cp_std x) epsilon)\<^sup>2"
proof -
  let ?y = "znorm x epsilon"
  have n: "real (length x) \<noteq> 0" using assms(1) by simp
  have "cp_mean ?y = 0"
    using znorm_sum_zero [OF assms(1), of epsilon] by (simp add: cp_mean_eq)
  then have "cp_var ?y = (\<Sum>i<length x. (?y ! i)\<^sup>2) / real (length x)"
    by (simp add: cp_var_eq)
  also have "\<dots> = cp_var x / (max (cp_std x) epsilon)\<^sup>2"
    using n by (simp add: znorm_sumsq [OF assms(1)])
  finally show ?thesis
    by (simp add: power_divide cp_std_squared)
qed

section \<open>The two Z-normalized entries compared\<close>

lemma zdist_fft_entries:
  assumes "0 < epsilon" and "dtype Q = dtype S" and "shapes_ok Q S" and "0 < std (data Q)"
    and "length (data Q) \<le> length (data S)" and "2 \<le> length (data Q)"
  shows "zdist Q S ''fft'' epsilon std mem
           = Inr (map (z_transform_entry (data Q) (data S) epsilon)
                   [0..<length (data S) + 1 - length (data Q)])"
  unfolding zdist_fft_eq [where std = std, OF assms] z_transform_entry_def ..

lemma zdist_direct_entries:
  assumes "0 < epsilon" and "dtype Q = dtype S" and "shapes_ok Q S" and "0 < std (data Q)"
    and "mode \<noteq> ''fft''" and "length (data Q) \<le> length (data S)"
  shows "zdist Q S mode epsilon std mem
           = Inr (map (z_direct_entry (data Q) (data S) epsilon)
                   [0..<length (data S) + 1 - length (data Q)])"
  unfolding zdist_direct_eq [where std = std, OF assms] z_direct_entry_def ..

text \<open>
  The two entries differ by \<open>m\<close> minus the sum of squares of the normalized query, which
  is zero exactly when the query was scaled by its own deviation.
\<close>

lemma z_entries_differ:
  assumes "q \<noteq> []"
  shows "z_direct_entry q S epsilon k
           = z_transform_entry q S epsilon k
             - (real (length q) - (\<Sum>i<length q. (znorm q epsilon ! i)\<^sup>2))"
proof -
  let ?m = "length q"
  have m: "0 < ?m" using assms by simp
  have zero: "(\<Sum>i<?m. znorm q epsilon ! i) = 0"
    by (rule znorm_sum_zero [OF assms])
  show ?thesis
  proof (cases "window_var S ?m k > 0")
    case True
    from z_direct_entry_pos [OF m True zero, of epsilon] True show ?thesis
      by (simp add: z_direct_entry_def z_transform_entry_def)
  next
    case False
    from z_direct_entry_flat [OF m False, of "\<lambda>i. znorm q epsilon ! i" epsilon] False show ?thesis
      by (simp add: z_direct_entry_def z_transform_entry_def)
  qed
qed





section \<open>Claims about the stabilized prefix sum\<close>







section \<open>Claims about the public operations\<close>

text \<open>
  Claim C5: for Query \<open>[1,2,3]\<close> and Stream \<open>[1,2,3,1,2,3,9,9,9]\<close> in direct mode the raw
  distance operation returns an array whose entry 0 is 0, entry 3 is 0 and entry 6 is
  149.  The whole array is \<open>[0, 6, 6, 0, 38, 89, 149]\<close>, whatever the uninitialised output
  buffer held.
\<close>

theorem raw_distance_concrete_scenario:
  "sdist (array1 Float64 [1, 2, 3]) (array1 Float64 [1, 2, 3, 1, 2, 3, 9, 9, 9]) ''direct'' mem
     = Inr [0, 6, 6, 0, 38, 89, 149]
   \<and> [0, 6, 6, 0, 38, 89, 149 :: real] ! 0 = 0
   \<and> [0, 6, 6, 0, 38, 89, 149 :: real] ! 3 = 0
   \<and> [0, 6, 6, 0, 38, 89, 149 :: real] ! 6 = 149"
proof -
  have "sdist (array1 Float64 [1, 2, 3]) (array1 Float64 [1, 2, 3, 1, 2, 3, 9, 9, 9]) ''direct'' mem
     = Inr [0, 6, 6, 0, 38, 89, 149]"
    by (subst sdist_direct_eq)
      (simp_all add: upt_rec [of _ "numeral _"] upt_rec [of _ "Suc _"] lessThan_Suc eval_nat_numeral)
  then show ?thesis by simp
qed

text \<open>
  Claim C2: every valid call of the three operations, in either mode, returns an array
  of \<open>n - m + 1\<close> entries, also for \<open>m = 1\<close>.  In the transform-domain mode a query of
  one entry does not return: the slice \<^verbatim>\<open>R[:-m+1]\<close> is \<^verbatim>\<open>R[:0]\<close>, the empty array, and
  adding it to the windowed sums (of the padded length) raises \<^verbatim>\<open>ValueError\<close>.
\<close>

theorem sdist_fft_single_entry_query_raises:
  "sdist (array1 Float64 [1]) (array1 Float64 [1, 2]) ''fft'' mem = Inl ValueError"
proof -
  have "fft_sdist (array1 Float64 [1]) (array1 Float64 [1, 2]) 10000 0 = Inl ValueError"
    by (rule fft_sdist_single) simp_all
  then show ?thesis by (simp add: sdist_def)
qed

section \<open>Claims about the normalization helper\<close>

text \<open>
  Claim C8: for every array \<open>x\<close> and every \<open>epsilon > 0\<close>, \<open>z_normalize\<close> returns
  \<open>(x - mean(x)) / max(population_stdev(x), epsilon)\<close>, the population standard deviation
  dividing by the length; when that deviation is below \<open>epsilon\<close> the divisor is
  \<open>epsilon\<close>, and the variance of the result is \<open>(stdev / epsilon)\<^sup>2\<close>, not 1.
\<close>

theorem znorm_meets_specification:
  assumes "0 < epsilon"
  shows "znorm x epsilon = z_normalize_spec x epsilon
       \<and> (population_stdev x)\<^sup>2 * real (length x) = (\<Sum>v\<leftarrow>x. (v - arithmetic_mean x)\<^sup>2)
       \<and> (x \<noteq> [] \<and> population_stdev x < epsilon \<longrightarrow>
            znorm x epsilon = map (\<lambda>v. (v - arithmetic_mean x) / epsilon) x
          \<and> population_variance (znorm x epsilon) = (population_stdev x / epsilon)\<^sup>2
          \<and> population_variance (znorm x epsilon) < 1)"
proof (intro conjI impI)
  show "znorm x epsilon = z_normalize_spec x epsilon"
    by (simp add: znorm_def z_normalize_spec_def cp_mean_arithmetic_mean cp_std_population_stdev)
  have "0 \<le> population_variance x"
    using cp_var_nonneg [of x] by (simp add: cp_var_population_variance)
  then show "(population_stdev x)\<^sup>2 * real (length x) = (\<Sum>v\<leftarrow>x. (v - arithmetic_mean x)\<^sup>2)"
    by (simp add: population_stdev_def population_variance_def)
next
  assume h: "x \<noteq> [] \<and> population_stdev x < epsilon"
  then have m: "max (cp_std x) epsilon = epsilon"
    by (simp add: cp_std_population_stdev)
  show "znorm x epsilon = map (\<lambda>v. (v - arithmetic_mean x) / epsilon) x"
    by (simp add: znorm_def m cp_mean_arithmetic_mean)
  show v: "population_variance (znorm x epsilon) = (population_stdev x / epsilon)\<^sup>2"
    using znorm_variance [of x epsilon] h assms
    by (simp add: m cp_var_population_variance cp_std_population_stdev)
  have "0 \<le> population_stdev x / epsilon" "population_stdev x / epsilon < 1"
    using h assms cp_std_nonneg [of x] by (simp_all add: cp_std_population_stdev)
  then have "(population_stdev x / epsilon)\<^sup>2 < 1\<^sup>2"
    by (intro power_strict_mono) simp_all
  then show "population_variance (znorm x epsilon) < 1"
    by (simp add: v)
qed

theorem znorm_meets_specification_witness:
  "(0::real) < 1 \<and> [0, 1] \<noteq> ([]::real list) \<and> population_stdev [0, 1] < 1
   \<and> znorm [0, 1] 1 = [- 1 / 2, 1 / 2]
   \<and> population_variance (znorm [0, 1] 1) = 1 / 4"
proof -
  have s: "population_stdev [0, 1] = 1 / 2"
    using cp_std_pair [of 0 1] by (simp add: cp_std_population_stdev)
  have a: "arithmetic_mean [0, 1] = 1 / 2"
    by (simp add: arithmetic_mean_def)
  have h: "[0, 1] \<noteq> ([]::real list) \<and> population_stdev [0, 1] < 1"
    by (simp add: s)
  have p: "(0::real) < 1" by simp
  from znorm_meets_specification [OF p, of "[0, 1]"] h
  have "znorm [0, 1] 1 = map (\<lambda>v. (v - arithmetic_mean [0, 1]) / 1) [0, 1]"
    and "population_variance (znorm [0, 1] 1) = (population_stdev [0, 1] / 1)\<^sup>2"
    by blast+
  then show ?thesis
    using h by (simp add: s a power2_eq_square)
qed

section \<open>Claims about the dispatch layer\<close>

text \<open>
  Claim C6: the mode selector takes the value "transform" or "direct"; "transform" runs
  the transform-domain engine and "direct" the direct reduction kernel.  The code
  compares the selector with the string "fft" only: the value "transform" is not "fft",
  so it runs the direct kernel.  For a one-entry query the difference shows in the
  result: the engine raises, the call with mode "transform" returns the two distances.
\<close>

theorem mode_transform_runs_direct_kernel:
  "sdist (array1 Float64 [1]) (array1 Float64 [1, 2]) ''transform'' (\<lambda>i. 0) = Inr [0, 1]
   \<and> fft_sdist (array1 Float64 [1]) (array1 Float64 [1, 2]) 10000 0 = Inl ValueError"
proof
  show "sdist (array1 Float64 [1]) (array1 Float64 [1, 2]) ''transform'' (\<lambda>i. 0) = Inr [0, 1]"
    by (subst sdist_direct_eq)
      (simp_all add: upt_rec [of _ "numeral _"] upt_rec [of _ "Suc _"] lessThan_Suc eval_nat_numeral)
  show "fft_sdist (array1 Float64 [1]) (array1 Float64 [1, 2]) 10000 0 = Inl ValueError"
    by (rule fft_sdist_single) simp_all
qed

text \<open>
  Claim C6 as the code has it: for inputs that pass the checks of the operation, the
  selector value "fft" runs the transform-domain engine (alignment 10000, no refinement
  round), and every other value runs the direct kernel of the operation on a fresh output
  buffer, launched with 2560 blocks of 64 threads; the mean-adjusted and the Z-normalized
  kernel receive the normalized query.  The raw and the mean-adjusted operation check
  the element types and the shapes only.
\<close>

theorem dispatch_by_mode:
  assumes "dtype Q = dtype S" and "shapes_ok Q S"
  shows "sdist Q S mode mem
           = (if mode = ''fft'' then fft_sdist Q S 10000 0
              else Inr (sdist_kernel (80 * 32) 64 (data Q) (data S)
                         (cp_empty (length (data S) - length (data Q) + 1) mem)))
       \<and> mdist Q S mode mem
           = (if mode = ''fft'' then fft_mdist Q S 10000 0
              else Inr (mdist_kernel (80 * 32) 64 (mnorm (data Q)) (data S)
                         (cp_empty (length (data S) - length (data Q) + 1) mem)))
       \<and> (0 < epsilon \<and> 0 < std (data Q) \<longrightarrow>
            zdist Q S mode epsilon std mem
              = (if mode = ''fft'' then fft_zdist Q S epsilon 10000 0
                 else Inr (zdist_kernel (80 * 32) 64 (znorm (data Q) epsilon) (data S)
                            (cp_empty (length (data S) - length (data Q) + 1) mem) epsilon)))"
  using assms by (simp add: sdist_def mdist_def zdist_def Let_def)

theorem dispatch_by_mode_witness:
  "sdist (array1 Float64 [1]) (array1 Float64 [1, 2]) ''fft'' (\<lambda>i. 0)
     = fft_sdist (array1 Float64 [1]) (array1 Float64 [1, 2]) 10000 0
   \<and> sdist (array1 Float64 [1]) (array1 Float64 [1, 2]) ''naive'' (\<lambda>i. 0)
     = Inr (sdist_kernel (80 * 32) 64 [1] [1, 2] [0, 0])
   \<and> zdist (array1 Float64 [0, 1]) (array1 Float64 [0, 1, 3]) ''fft'' (1 / 1000000) cp_std (\<lambda>i. 0)
     = fft_zdist (array1 Float64 [0, 1]) (array1 Float64 [0, 1, 3]) (1 / 1000000) 10000 0
   \<and> zdist (array1 Float64 [0, 1]) (array1 Float64 [0, 1, 3]) ''naive'' (1 / 1000000) cp_std (\<lambda>i. 0)
     = Inr (zdist_kernel (80 * 32) 64 (znorm [0, 1] (1 / 1000000)) [0, 1, 3] [0, 0] (1 / 1000000))"
proof -
  let ?Q1 = "array1 Float64 [1]" and ?S1 = "array1 Float64 [1, 2]"
  let ?Q2 = "array1 Float64 [0, 1]" and ?S2 = "array1 Float64 [0, 1, 3]"
  have h1: "dtype ?Q1 = dtype ?S1" "shapes_ok ?Q1 ?S1"
    and h2: "dtype ?Q2 = dtype ?S2" "shapes_ok ?Q2 ?S2"
    and e: "(0::real) < 1 / 1000000 \<and> 0 < cp_std (data ?Q2)"
    by (simp_all add: cp_std_pair)
  have b: "cp_empty (Suc (Suc 0)) (\<lambda>i. 0) = [0, 0]"
    by (simp add: cp_empty_def)
  have 1: "sdist ?Q1 ?S1 ''fft'' (\<lambda>i. 0) = fft_sdist ?Q1 ?S1 10000 0"
    using dispatch_by_mode [where std = cp_std and mode = "''fft''" and mem = "\<lambda>i. 0", OF h1] by simp
  have 2: "sdist ?Q1 ?S1 ''naive'' (\<lambda>i. 0) = Inr (sdist_kernel (80 * 32) 64 [1] [1, 2] [0, 0])"
    using dispatch_by_mode [where std = cp_std and mode = "''naive''" and mem = "\<lambda>i. 0", OF h1] by (simp add: b)
  have 3: "zdist ?Q2 ?S2 ''fft'' (1 / 1000000) cp_std (\<lambda>i. 0)
      = fft_zdist ?Q2 ?S2 (1 / 1000000) 10000 0"
    using dispatch_by_mode [where std = cp_std and mode = "''fft''" and mem = "\<lambda>i. 0"
        and epsilon = "1 / 1000000", OF h2] e
    by simp
  have 4: "zdist ?Q2 ?S2 ''naive'' (1 / 1000000) cp_std (\<lambda>i. 0)
      = Inr (zdist_kernel (80 * 32) 64 (znorm [0, 1] (1 / 1000000)) [0, 1, 3] [0, 0] (1 / 1000000))"
    using dispatch_by_mode [where std = cp_std and mode = "''naive''" and mem = "\<lambda>i. 0"
        and epsilon = "1 / 1000000", OF h2] e
    by (simp add: b)
  from 1 2 3 4 show ?thesis by (intro conjI)
qed

text \<open>
  Claim C9: every invalid input aborts the call without an output array, and the four
  violations (type mismatch, shape violation, degenerate query, invalid epsilon) can be
  told apart by the caller.  All checks are bare \<^verbatim>\<open>assert\<close> statements: each of the four
  violations surfaces as the same \<^verbatim>\<open>AssertionError\<close>, here for a query of another element
  type, a query longer than the stream, the constant query \<open>[1, 1]\<close> (whose computed
  standard deviation is exactly 0), and epsilon 0.
\<close>

theorem violations_raise_the_same_error:
  "zdist (array1 Float32 [0, 1]) (array1 Float64 [0, 1, 3]) ''fft'' (1 / 1000000) cp_std (\<lambda>i. 0)
     = Inl AssertionError
   \<and> zdist (array1 Float64 [0, 1, 3]) (array1 Float64 [0, 1]) ''fft'' (1 / 1000000) cp_std (\<lambda>i. 0)
     = Inl AssertionError
   \<and> zdist (array1 Float64 [1, 1]) (array1 Float64 [0, 1, 3]) ''fft'' (1 / 1000000) cp_std (\<lambda>i. 0)
     = Inl AssertionError
   \<and> zdist (array1 Float64 [0, 1]) (array1 Float64 [0, 1, 3]) ''fft'' 0 cp_std (\<lambda>i. 0)
     = Inl AssertionError"
  by (simp add: zdist_def cp_std_pair)

text \<open>
  Claim C9 as the code has it: a call whose element types differ, whose shapes fail the
  check, whose \<open>epsilon\<close> is not positive, or whose query has a computed standard deviation
  that is not positive (whatever the library computes for it) returns no array; it
  raises \<^verbatim>\<open>AssertionError\<close>, the same error for each of the violations.
\<close>

theorem contract_violations_abort:
  "(dtype Q \<noteq> dtype S \<or> \<not> shapes_ok Q S \<longrightarrow>
      sdist Q S mode mem = Inl AssertionError \<and> mdist Q S mode mem = Inl AssertionError)
   \<and> (\<not> 0 < epsilon \<or> dtype Q \<noteq> dtype S \<or> \<not> shapes_ok Q S \<or> \<not> 0 < std (data Q) \<longrightarrow>
      zdist Q S mode epsilon std mem = Inl AssertionError)"
  by (auto simp: sdist_def mdist_def zdist_def)

theorem contract_violations_abort_witness:
  "dtype (array1 Float32 [0, 1]) \<noteq> dtype (array1 Float64 [0, 1, 3])
   \<and> sdist (array1 Float32 [0, 1]) (array1 Float64 [0, 1, 3]) ''fft'' (\<lambda>i. 0) = Inl AssertionError
   \<and> mdist (array1 Float32 [0, 1]) (array1 Float64 [0, 1, 3]) ''fft'' (\<lambda>i. 0) = Inl AssertionError
   \<and> zdist (array1 Float32 [0, 1]) (array1 Float64 [0, 1, 3]) ''fft'' 1 cp_std (\<lambda>i. 0)
       = Inl AssertionError"
proof -
  have h: "dtype (array1 Float32 [0, 1]) \<noteq> dtype (array1 Float64 [0, 1, 3])"
    by simp
  show ?thesis
    using h contract_violations_abort [where Q = "array1 Float32 [0, 1]"
        and S = "array1 Float64 [0, 1, 3]" and mode = "''fft''" and mem = "\<lambda>i. 0"
        and epsilon = 1 and std = cp_std]
    by blast
qed

section \<open>Claims about the two execution paths\<close>

text \<open>
  Claim C1: for every valid query and stream the transform-domain path and the direct
  path of the same metric compute the same function in exact arithmetic, for the raw,
  the mean-adjusted and the Z-normalized metric.  The Z-normalized pair computes
  different values when the query's standard deviation is below \<open>epsilon\<close>: for the query
  \<open>[0, 1/1000000]\<close>, the stream \<open>[0, 1]\<close> and \<open>epsilon = 1/1000000\<close> the transform-domain
  path returns \<open>[2]\<close> and the direct path returns \<open>[1/2]\<close>.  The engine computes
  \<open>2 * (m - R/Z)\<close>, which is the sum of squared differences only if the squares of the
  normalized query add up to \<open>m\<close>; here the query was divided by \<open>epsilon\<close>, and they add up
  to \<open>1/2\<close>.
\<close>

theorem z_paths_disagree_below_epsilon:
  "zdist (array1 Float64 [0, 1 / 1000000]) (array1 Float64 [0, 1]) ''fft'' (1 / 1000000) cp_std
       (\<lambda>i. 0) = Inr [2]
   \<and> zdist (array1 Float64 [0, 1 / 1000000]) (array1 Float64 [0, 1]) ''direct'' (1 / 1000000) cp_std
       (\<lambda>i. 0) = Inr [1 / 2]"
proof -
  let ?q = "[0, 1 / 1000000] :: real list" and ?s = "[0, 1] :: real list" and ?e = "1 / 1000000 :: real"
  have std: "cp_std ?q = 1 / 2000000" by (simp add: cp_std_pair)
  have z: "znorm ?q ?e = [- 1 / 2, 1 / 2]"
    by (simp add: znorm_def std cp_mean_pair)
  have v: "window_var ?s (Suc (Suc 0)) 0 = 1 / 4" and mu: "window_mean ?s (Suc (Suc 0)) 0 = 1 / 2"
    by (simp_all add: window_var_def window_mean_def window_sum_def window_sumsq_def lessThan_Suc)
  have r: "sqrt (1 / 4) = 1 / 2"
    by (rule real_sqrt_unique) (simp_all add: power2_eq_square)
  have t: "z_transform_entry ?q ?s ?e 0 = 2"
    by (simp add: z_transform_entry_def z v r lessThan_Suc)
  have d: "z_direct_entry ?q ?s ?e 0 = 1 / 2"
    by (simp add: z_direct_entry_def window_sigma_def z v mu r lessThan_Suc power2_eq_square)
  have "zdist (array1 Float64 ?q) (array1 Float64 ?s) ''fft'' ?e cp_std (\<lambda>i. 0) = Inr [2]"
    by (subst zdist_fft_entries) (simp_all add: std t)
  moreover have "zdist (array1 Float64 ?q) (array1 Float64 ?s) ''direct'' ?e cp_std (\<lambda>i. 0)
      = Inr [1 / 2]"
    by (subst zdist_direct_entries) (simp_all add: std d)
  ultimately show ?thesis by simp
qed

text \<open>
  Where the two paths do agree, for queries of at least two entries: in exact arithmetic
  both paths of the raw metric return the per-window sums of squared differences, both
  paths of the mean-adjusted metric return the same array, and both paths of the
  Z-normalized metric return the same array when the query's population standard
  deviation is at least \<open>epsilon\<close>.
\<close>

lemma paths_agree:
  assumes "wf_ndarray Q" and "wf_ndarray S" and "dtype Q = dtype S" and "shapes_ok Q S"
    and "2 \<le> length (data Q)" and "mode \<noteq> ''fft''"
  shows "sdist Q S ''fft'' mem = sdist Q S mode mem'
       \<and> sdist Q S mode mem'
           = Inr (map (\<lambda>k. \<Sum>i<length (data Q). (data Q ! i - data S ! (k + i))\<^sup>2)
                   [0..<length (data S) + 1 - length (data Q)])
       \<and> mdist Q S ''fft'' mem = mdist Q S mode mem'
       \<and> (0 < epsilon \<and> epsilon \<le> cp_std (data Q) \<and> 0 < std (data Q) \<longrightarrow>
            zdist Q S ''fft'' epsilon std mem = zdist Q S mode epsilon std mem')"
proof -
  have le: "length (data Q) \<le> length (data S)"
    by (rule shapes_ok_lengths [OF assms(1,2,4)])
  have s: "sdist Q S ''fft'' mem = fft_sdist Q S 10000 0"
    and m: "mdist Q S ''fft'' mem = fft_mdist Q S 10000 0"
    using assms(3,4) by (simp_all add: sdist_def mdist_def)
  have 1: "sdist Q S ''fft'' mem = sdist Q S mode mem'"
    unfolding s sdist_direct_eq [OF assms(3,4,6) le]
    by (rule fft_sdist_eq [OF assms(3) _ assms(5) le]) simp_all
  have 2: "mdist Q S ''fft'' mem = mdist Q S mode mem'"
    unfolding m mdist_direct_eq [OF assms(3,4,6) le]
    by (rule fft_mdist_eq [OF _ assms(5) le]) simp_all
  have 3: "zdist Q S ''fft'' epsilon std mem = zdist Q S mode epsilon std mem'"
    if "0 < epsilon \<and> epsilon \<le> cp_std (data Q) \<and> 0 < std (data Q)"
  proof -
    from that have e: "0 < epsilon" and st: "0 < cp_std (data Q)" and ge: "epsilon \<le> cp_std (data Q)"
      and c: "0 < std (data Q)"
      by simp_all
    have ne: "data Q \<noteq> []" using assms(5) by auto
    have "z_direct_entry (data Q) (data S) epsilon k = z_transform_entry (data Q) (data S) epsilon k"
      for k
      using z_entries_differ [OF ne, of "data S" epsilon k] znorm_sumsq_unit [OF st ge]
      by simp
    then have "z_direct_entry (data Q) (data S) epsilon = z_transform_entry (data Q) (data S) epsilon"
      by (rule ext)
    then show ?thesis
      by (simp only: zdist_fft_entries [where std = std, OF e assms(3,4) c le assms(5)]
          zdist_direct_entries [where std = std, OF e assms(3,4) c assms(6) le])
  qed
  from 1 2 3 sdist_direct_eq [OF assms(3,4,6) le] show ?thesis
    by blast
qed

section \<open>Claims about the Z-normalized distance\<close>

text \<open>
  Claim C3: where the stream has a constant window of length \<open>m\<close> at index \<open>k\<close>, the returned
  Z-normalized distance at \<open>k\<close> is exactly \<open>m\<close>, in both modes.  The direct kernel returns
  the sum of squares of the normalized query there, which is less than \<open>m\<close> when the
  query's standard deviation is below \<open>epsilon\<close>: for the query \<open>[0, 1/1000000]\<close>, the
  constant stream \<open>[5, 5]\<close> and \<open>epsilon = 1/1000000\<close> it returns \<open>1/2\<close>, not 2.
\<close>

theorem constant_window_direct_below_epsilon:
  "zdist (array1 Float64 [0, 1 / 1000000]) (array1 Float64 [5, 5]) ''direct'' (1 / 1000000) cp_std
       (\<lambda>i. 0) = Inr [1 / 2]
   \<and> (1 / 2 :: real) \<noteq> real (length [0, 1 / 1000000 :: real])"
proof -
  let ?q = "[0, 1 / 1000000] :: real list" and ?s = "[5, 5] :: real list" and ?e = "1 / 1000000 :: real"
  have std: "cp_std ?q = 1 / 2000000" by (simp add: cp_std_pair)
  have z: "znorm ?q ?e = [- 1 / 2, 1 / 2]"
    by (simp add: znorm_def std cp_mean_pair)
  have v: "window_var ?s (Suc (Suc 0)) 0 = 0" and mu: "window_mean ?s (Suc (Suc 0)) 0 = 5"
    by (simp_all add: window_var_def window_mean_def window_sum_def window_sumsq_def lessThan_Suc)
  have d: "z_direct_entry ?q ?s ?e 0 = 1 / 2"
    by (simp add: z_direct_entry_def window_sigma_def z v mu lessThan_Suc power2_eq_square)
  have "zdist (array1 Float64 ?q) (array1 Float64 ?s) ''direct'' ?e cp_std (\<lambda>i. 0) = Inr [1 / 2]"
    by (subst zdist_direct_entries) (simp_all add: std d)
  then show ?thesis by simp
qed




end
